theory Spec2Isabelle
  imports Complex_Main
begin

section \<open>EKF-SLAM (src/slam/EKFSLAM.py): arrays, errors and helpers\<close>

text \<open>
  A one-dimensional ndarray is a list, a two-dimensional ndarray is the list of its rows.
  The entries of the arrays are real numbers: a finite float64 is read as the real it
  denotes and rounding is left out. Where the source itself produces values that are not
  finite (a division by zero), the result type is \<open>npfloat\<close> below.
\<close>

type_synonym vec = "real list"
type_synonym mat = "real list list"

text \<open>
  The exceptions of Python and numpy that a path of the source can raise. Unpacking
  \<open>None\<close> into several names raises TypeError; an attribute access on \<open>None\<close> would
  raise AttributeError.
\<close>

datatype error = AssertionError | IndexError | ValueError | TypeError | AttributeError | LinAlgError

text \<open>
  Modelled from the spec: \<open>utils.wrapToPi\<close> is not among the sources of the filter; the
  spec gives its contract, \<open>wrap_to_pi(angle) -> angle\<close> in \<open>(-pi, pi]\<close>, the angle
  being kept modulo a full turn.
\<close>

definition wrapToPi :: "real \<Rightarrow> real" where
  "wrapToPi a = a - 2 * pi * of_int \<lceil>(a - pi) / (2 * pi)\<rceil>"

text \<open>
  Modelled from the spec: \<open>utils.rotmat2d\<close> is not among the sources of the filter; the
  spec gives \<open>rotation_matrix_2d(theta) -> 2x2\<close> orthonormal matrix, the rotation by
  \<open>theta\<close>.
\<close>

definition rotmat2d :: "real \<Rightarrow> mat" where
  "rotmat2d t = [[cos t, - sin t], [sin t, cos t]]"


subsection \<open>Values that are not finite\<close>

text \<open>
  numpy does not raise on a float64 division by zero: it warns and returns an infinity, or
  NaN for \<open>0/0\<close>. \<open>npfloat\<close> holds the values of the arrays in which the source divides:
  a finite real, the two infinities and NaN, with the IEEE 754 rules for the special
  values and no rounding.
\<close>

datatype npfloat = Fin real | PInf | NInf | NaN

definition np_sign :: "npfloat \<Rightarrow> real" where
  "np_sign x = (case x of Fin a \<Rightarrow> sgn a | PInf \<Rightarrow> 1 | NInf \<Rightarrow> - 1 | NaN \<Rightarrow> 0)"

instantiation npfloat :: "{zero,plus,times}"
begin

definition zero_npfloat :: npfloat where
  "zero_npfloat = Fin 0"

definition plus_npfloat :: "npfloat \<Rightarrow> npfloat \<Rightarrow> npfloat" where
  "plus_npfloat x y =
     (case (x, y) of
        (Fin a, Fin b) \<Rightarrow> Fin (a + b)
      | _ \<Rightarrow>
          if x = NaN \<or> y = NaN then NaN
          else if (x = PInf \<and> y = NInf) \<or> (x = NInf \<and> y = PInf) then NaN
          else if x = PInf \<or> y = PInf then PInf
          else NInf)"

definition times_npfloat :: "npfloat \<Rightarrow> npfloat \<Rightarrow> npfloat" where
  "times_npfloat x y =
     (case (x, y) of
        (Fin a, Fin b) \<Rightarrow> Fin (a * b)
      | _ \<Rightarrow>
          if x = NaN \<or> y = NaN then NaN
          else if np_sign x * np_sign y = 0 then NaN
          else if 0 < np_sign x * np_sign y then PInf
          else NInf)"

instance ..

end

text \<open>float64 division of two finite values, \<open>a / b\<close>.\<close>

definition np_div :: "real \<Rightarrow> real \<Rightarrow> npfloat" where
  "np_div a b =
     (if b \<noteq> 0 then Fin (a / b)
      else if a = 0 then NaN
      else if 0 < a then PInf
      else NInf)"

definition is_fin :: "npfloat \<Rightarrow> bool" where
  "is_fin x = (case x of Fin _ \<Rightarrow> True | _ \<Rightarrow> False)"

definition fin_val :: "npfloat \<Rightarrow> real" where
  "fin_val x = (case x of Fin a \<Rightarrow> a | _ \<Rightarrow> 0)"

subsection \<open>Array operations of numpy\<close>

text \<open>
  The operations are written for arrays whose shapes fit, as numpy requires; the source's
  own shape assertions and index reads are branches of the functions that use them.
\<close>

text \<open>Inner product of two one-dimensional arrays.\<close>

definition dot :: "'a::{zero,plus,times} list \<Rightarrow> 'a list \<Rightarrow> 'a" where
  "dot xs ys = foldr (+) (map2 (*) xs ys) 0"

definition ncols :: "'a list list \<Rightarrow> nat" where
  "ncols A = (case A of [] \<Rightarrow> 0 | r # _ \<Rightarrow> length r)"

text \<open>\<open>A[:, j]\<close>\<close>

definition col :: "'a list list \<Rightarrow> nat \<Rightarrow> 'a list" where
  "col A j = map (\<lambda>r. r ! j) A"

text \<open>\<open>A.T\<close>\<close>

definition matT :: "'a list list \<Rightarrow> 'a list list" where
  "matT A = map (col A) [0..<ncols A]"

text \<open>\<open>A @ B\<close> for two-dimensional \<open>A\<close> and \<open>B\<close>.\<close>

definition matmul :: "'a::{zero,plus,times} list list \<Rightarrow> 'a list list \<Rightarrow> 'a list list" where
  "matmul A B = map (\<lambda>r. map (\<lambda>j. dot r (col B j)) [0..<ncols B]) A"

text \<open>\<open>A @ v\<close> for one-dimensional \<open>v\<close>.\<close>

definition matvec :: "'a::{zero,plus,times} list list \<Rightarrow> 'a list \<Rightarrow> 'a list" where
  "matvec A v = map (\<lambda>r. dot r v) A"

text \<open>\<open>v @ B\<close> for one-dimensional \<open>v\<close>.\<close>

definition vecmat :: "'a::{zero,plus,times} list \<Rightarrow> 'a list list \<Rightarrow> 'a list" where
  "vecmat v B = map (\<lambda>j. dot v (col B j)) [0..<ncols B]"

definition vec_add :: "'a::plus list \<Rightarrow> 'a list \<Rightarrow> 'a list" where
  "vec_add xs ys = map2 (+) xs ys"

definition vec_sub :: "vec \<Rightarrow> vec \<Rightarrow> vec" where
  "vec_sub xs ys = map2 (-) xs ys"

definition mat_add :: "'a::plus list list \<Rightarrow> 'a list list \<Rightarrow> 'a list list" where
  "mat_add A B = map2 vec_add A B"

definition zeros :: "nat \<Rightarrow> nat \<Rightarrow> 'a::zero list list" where
  "zeros r c = replicate r (replicate c 0)"

definition eye :: "nat \<Rightarrow> mat" where
  "eye n = map (\<lambda>i. map (\<lambda>j. if i = j then 1 else 0) [0..<n]) [0..<n]"

text \<open>\<open>A[r0:r1, c0:c1]\<close>\<close>

definition slice2 :: "'a list list \<Rightarrow> nat \<Rightarrow> nat \<Rightarrow> nat \<Rightarrow> nat \<Rightarrow> 'a list list" where
  "slice2 A r0 r1 c0 c1 = map (\<lambda>r. take (c1 - c0) (drop c0 r)) (take (r1 - r0) (drop r0 A))"

text \<open>
  \<open>A[r:r+len(B), c:c+len(B[0])] = B\<close>: the entries of the block are replaced, the others
  are kept.
\<close>

definition set_row_part :: "'a list \<Rightarrow> nat \<Rightarrow> 'a list \<Rightarrow> 'a list" where
  "set_row_part r c b = take c r @ b @ drop (c + length b) r"

definition set_block :: "'a list list \<Rightarrow> nat \<Rightarrow> nat \<Rightarrow> 'a list list \<Rightarrow> 'a list list" where
  "set_block A r c B =
     map (\<lambda>i. if r \<le> i \<and> i < r + length B then set_row_part (A ! i) c (B ! (i - r)) else A ! i)
       [0..<length A]"

text \<open>\<open>scipy.linalg.block_diag(A, B)\<close>\<close>

definition block_diag :: "mat \<Rightarrow> mat \<Rightarrow> mat" where
  "block_diag A B =
     map (\<lambda>r. r @ replicate (ncols B) 0) A @ map (\<lambda>r. replicate (ncols A) 0 @ r) B"

text \<open>\<open>np.kron(np.eye(n), R)\<close>: \<open>n\<close> copies of \<open>R\<close> on the diagonal.\<close>

definition kron_eye :: "nat \<Rightarrow> mat \<Rightarrow> mat" where
  "kron_eye n R =
     concat (map (\<lambda>i. map (\<lambda>r. replicate (i * ncols R) 0 @ r @ replicate ((n - 1 - i) * ncols R) 0) R)
       [0..<n])"

text \<open>The shape of a two-dimensional array with at least one row.\<close>

definition is_mat :: "nat \<Rightarrow> nat \<Rightarrow> 'a list list \<Rightarrow> bool" where
  "is_mat r c A = (length A = r \<and> list_all (\<lambda>row. length row = c) A)"

text \<open>
  \<open>np.allclose(A, B)\<close> with numpy's default tolerances \<open>rtol = 1e-5\<close> and
  \<open>atol = 1e-8\<close>, for arrays of one shape: \<open>|a - b| <= atol + rtol * |b|\<close> in every
  place.
\<close>

definition allclose :: "mat \<Rightarrow> mat \<Rightarrow> bool" where
  "allclose A B =
     list_all2 (list_all2 (\<lambda>a b. \<bar>a - b\<bar> \<le> 1 / 10 ^ 8 + (1 / 10 ^ 5) * \<bar>b\<bar>)) A B"

text \<open>
  \<open>np.all(np.linalg.eigvals(A) >= 0)\<close> and \<open>np.all(np.linalg.eigvals(A) > 0)\<close>: every
  eigenvalue of \<open>A\<close> satisfies the bound. The arrays the source tests have passed
  \<open>allclose(A, A.T)\<close> just before, and the eigenvalues of a symmetric real matrix are the
  reals \<open>l\<close> with \<open>A v = l v\<close> for some nonzero \<open>v\<close>.
\<close>

definition is_eigval :: "mat \<Rightarrow> real \<Rightarrow> bool" where
  "is_eigval A l =
     (\<exists>v. length v = length A \<and> (\<exists>a \<in> set v. a \<noteq> 0) \<and> matvec A v = map (\<lambda>a. l * a) v)"

definition eigvals_ge0 :: "mat \<Rightarrow> bool" where
  "eigvals_ge0 A = (\<forall>l. is_eigval A l \<longrightarrow> 0 \<le> l)"

definition eigvals_gt0 :: "mat \<Rightarrow> bool" where
  "eigvals_gt0 A = (\<forall>l. is_eigval A l \<longrightarrow> 0 < l)"

text \<open>
  numpy computes the eigenvalues in float64, so on a matrix that is singular or close to
  it the verdict of such a test need not be that of the exact spectrum: a positive
  definite matrix with a small eigenvalue can be rejected, an exactly singular one
  accepted. Where a property turns on the verdict itself, as for the two tests of
  \<open>EKFSLAM.predict\<close>, the tests are a parameter of the model, a record of the two
  verdicts \<open>np.all(np.linalg.eigvals(A) >= 0)\<close> and \<open>np.all(np.linalg.eigvals(A) > 0)\<close>
  about which nothing is assumed.
\<close>

record eigvals_test =
  all_ge0 :: "mat \<Rightarrow> bool"
  all_gt0 :: "mat \<Rightarrow> bool"

text \<open>Positive (semi-)definiteness of a matrix, by its quadratic form.\<close>

definition quad :: "mat \<Rightarrow> vec \<Rightarrow> real" where
  "quad A v = dot v (matvec A v)"

definition psd :: "mat \<Rightarrow> bool" where
  "psd A = (\<forall>v. length v = length A \<longrightarrow> 0 \<le> quad A v)"

definition pd :: "mat \<Rightarrow> bool" where
  "pd A = (\<forall>v. length v = length A \<and> (\<exists>a \<in> set v. a \<noteq> 0) \<longrightarrow> 0 < quad A v)"

subsection \<open>The filter's configuration\<close>

text \<open>
  The fields of the dataclass \<open>EKFSLAM\<close>: \<open>Q\<close> is 3x3, \<open>R\<close> is 2x2, \<open>alphas\<close> and
  \<open>sensor_offset\<close> have two entries.
\<close>

record config =
  Q :: mat
  R :: mat
  do_asso :: bool
  alphas :: vec
  sensor_offset :: vec

definition config_ok :: "config \<Rightarrow> bool" where
  "config_ok cfg =
     (is_mat 3 3 (Q cfg) \<and> is_mat 2 2 (R cfg) \<and> length (alphas cfg) = 2
      \<and> length (sensor_offset cfg) = 2)"

section \<open>Motion model\<close>

text \<open>\<open>EKFSLAM.f\<close>: reading \<open>u[0..2]\<close> and \<open>x[0..2]\<close> raises IndexError on a short array.\<close>

definition f :: "vec \<Rightarrow> vec \<Rightarrow> error + vec" where
  "f x u =
     (if length u < 3 \<or> length x < 3 then Inl IndexError
      else
        let uprev = u ! 0; vprev = u ! 1; phiprev = wrapToPi (u ! 2);
            xprev = x ! 0; yprev = x ! 1; psiprev = wrapToPi (x ! 2)
        in Inr [xprev + uprev * cos psiprev - vprev * sin psiprev,
                yprev + uprev * sin psiprev + vprev * sin psiprev,
                phiprev + psiprev])"

text \<open>
  The composition the spec describes in words: the body-frame displacement rotated by the
  old heading and added to the old position, the heading increment added and the sum
  wrapped. It is used only to compare \<open>f\<close> with.
\<close>

definition f_rigid_body :: "vec \<Rightarrow> vec \<Rightarrow> vec" where
  "f_rigid_body x u =
     [x ! 0 + u ! 0 * cos (x ! 2) - u ! 1 * sin (x ! 2),
      x ! 1 + u ! 0 * sin (x ! 2) + u ! 1 * cos (x ! 2),
      wrapToPi (x ! 2 + u ! 2)]"

definition Fx :: "vec \<Rightarrow> vec \<Rightarrow> error + mat" where
  "Fx x u =
     (if length u < 3 \<or> length x < 3 then Inl IndexError
      else
        let uk = u ! 0; vk = u ! 1; psik = x ! 2;
            arg1 = - uk * sin psik - vk * cos psik;
            arg2 = uk * cos psik - vk * sin psik
        in Inr [[1, 0, arg1], [0, 1, arg2], [0, 0, 1]])"

definition Fu :: "vec \<Rightarrow> vec \<Rightarrow> error + mat" where
  "Fu x u =
     (if length u < 3 \<or> length x < 3 then Inl IndexError
      else
        let psik = x ! 2
        in Inr [[cos psik, -1 * sin psik, 0], [sin psik, cos psik, 0], [0, 0, 1]])"

section \<open>Covariance prediction\<close>

text \<open>
  The three slice assignments of \<open>EKFSLAM.predict\<close> update \<open>P\<close> in place, one after
  the other: the pose block, the pose-map block (read from the array after the first
  assignment) and the map-pose block (read after the second). The result is the array
  after the third.
\<close>

definition predict_P :: "config \<Rightarrow> mat \<Rightarrow> mat \<Rightarrow> mat \<Rightarrow> mat" where
  "predict_P cfg P Fx' Fu' =
     (let P1 = set_block P 0 0
                 (mat_add (matmul (matmul Fx' (slice2 P 0 3 0 3)) (matT Fx'))
                          (matmul (matmul Fu' (Q cfg)) (matT Fu')));
          P2 = set_block P1 0 3 (matmul Fx' (map (drop 3) (take 3 P1)))
      in set_block P2 3 0 (matmul (map (take 3) (drop 3 P2)) (matT Fx')))"

text \<open>
  \<open>EKFSLAM.predict\<close>. Each assertion of the source is a branch; the verdicts of its two
  tests on \<open>np.linalg.eigvals\<close> are those of the parameter \<open>ev\<close>.
\<close>

definition predict :: "eigvals_test \<Rightarrow> config \<Rightarrow> vec \<Rightarrow> mat \<Rightarrow> vec \<Rightarrow> error + (vec \<times> mat)" where
  "predict ev cfg eta P z_odo =
     (if \<not> allclose P (matT P) then Inl AssertionError
      else if \<not> all_ge0 ev P then Inl AssertionError
      else if \<not> is_mat (length eta) (length eta) P then Inl AssertionError
      else
        let x = take 3 eta in
        case f x z_odo of Inl e \<Rightarrow> Inl e | Inr xpred \<Rightarrow>
        case Fx x z_odo of Inl e \<Rightarrow> Inl e | Inr Fx' \<Rightarrow>
        case Fu x z_odo of Inl e \<Rightarrow> Inl e | Inr Fu' \<Rightarrow>
          let etapred = xpred @ drop 3 eta;
              P' = predict_P cfg P Fx' Fu'
          in if \<not> allclose P' (matT P') then Inl AssertionError
             else if \<not> all_gt0 ev P' then Inl AssertionError
             else if \<not> is_mat (length etapred) (length etapred) P' then Inl AssertionError
             else Inr (etapred, P'))"

section \<open>Measurement model\<close>

text \<open>
  \<open>m = eta[3:].reshape((-1, 2)).T\<close>: column \<open>i\<close> of \<open>m\<close> is landmark \<open>i\<close>, and there
  are \<open>(len(eta) - 3) / 2\<close> columns. The reshape raises ValueError on an odd number of
  entries, reading \<open>x[2]\<close> raises IndexError on a state without a pose.
\<close>

definition n_landmarks :: "vec \<Rightarrow> nat" where
  "n_landmarks eta = (length eta - 3) div 2"

definition landmark :: "vec \<Rightarrow> nat \<Rightarrow> vec" where
  "landmark eta i = [eta ! (3 + 2 * i), eta ! (3 + 2 * i + 1)]"

text \<open>\<open>np.linalg.norm(v, 2)\<close> and \<open>np.arctan2(y, x)\<close>\<close>

definition norm2 :: "vec \<Rightarrow> real" where
  "norm2 v = sqrt (dot v v)"

definition arctan2 :: "real \<Rightarrow> real \<Rightarrow> real" where
  "arctan2 y x =
     (if 0 < x then arctan (y / x)
      else if x < 0 \<and> 0 \<le> y then arctan (y / x) + pi
      else if x < 0 then arctan (y / x) - pi
      else if 0 < y then pi / 2
      else if y < 0 then - pi / 2
      else 0)"

definition h :: "config \<Rightarrow> vec \<Rightarrow> error + vec" where
  "h cfg eta =
     (if 3 < length eta \<and> odd (length eta - 3) then Inl ValueError
      else if length eta < 3 then Inl IndexError
      else
        let x = take 3 eta;
            Rot = rotmat2d (- (x ! 2));
            delta_m = (\<lambda>i. vec_sub (landmark eta i) (take 2 x));
            zpredcart = (\<lambda>i. vec_sub (matvec Rot (delta_m i)) (sensor_offset cfg));
            zpred_r = (\<lambda>i. norm2 (zpredcart i));
            zpred_theta = (\<lambda>i. arctan2 (zpredcart i ! 1) (zpredcart i ! 0))
        in Inr (concat (map (\<lambda>i. [zpred_r i, zpred_theta i]) [0..<n_landmarks eta])))"

text \<open>
  \<open>EKFSLAM.h_jac\<close>. The quantities the loops of the source compute for landmark \<open>i\<close>:
  \<open>delta_m[:, i]\<close>, \<open>zc[:, i]\<close>, \<open>zpred_r[i]\<close>, \<open>jac_z_cb\<close> after its last column is
  set, and the rows of \<open>Hx\<close> and \<open>Hm\<close>. The divisions by \<open>zpred_r[i]\<close> and by its
  square are float64 divisions: their results are \<open>npfloat\<close> values.
\<close>

definition hj_delta_m :: "vec \<Rightarrow> nat \<Rightarrow> vec" where
  "hj_delta_m eta i = vec_sub (landmark eta i) (take 2 (take 3 eta))"

definition hj_zc :: "config \<Rightarrow> vec \<Rightarrow> nat \<Rightarrow> vec" where
  "hj_zc cfg eta i =
     vec_sub (hj_delta_m eta i) (matvec (rotmat2d (take 3 eta ! 2)) (sensor_offset cfg))"

definition hj_zpred_r :: "config \<Rightarrow> vec \<Rightarrow> nat \<Rightarrow> real" where
  "hj_zpred_r cfg eta i = norm2 (hj_zc cfg eta i)"

definition hj_jac_z_cb :: "vec \<Rightarrow> nat \<Rightarrow> mat" where
  "hj_jac_z_cb eta i =
     (let c = map uminus (matvec (rotmat2d (pi / 2)) (hj_delta_m eta i))
      in [[- 1, 0, c ! 0], [0, - 1, c ! 1]])"

definition hj_Hx :: "config \<Rightarrow> vec \<Rightarrow> nat \<Rightarrow> npfloat list list" where
  "hj_Hx cfg eta i =
     (let zc = hj_zc cfg eta i; r = hj_zpred_r cfg eta i; jac_z_cb = hj_jac_z_cb eta i;
          Rpihalf = rotmat2d (pi / 2)
      in [vecmat (map (\<lambda>a. np_div a r) zc) (map (map Fin) jac_z_cb),
          map (\<lambda>a. np_div a (r ^ 2)) (vecmat (vecmat zc (matT Rpihalf)) jac_z_cb)])"

definition hj_Hm :: "config \<Rightarrow> vec \<Rightarrow> nat \<Rightarrow> npfloat list list" where
  "hj_Hm cfg eta i =
     (let zc = hj_zc cfg eta i; r = hj_zpred_r cfg eta i; Rpihalf = rotmat2d (pi / 2)
      in [map (\<lambda>a. np_div a r) zc,
          map (\<lambda>a. np_div a (r ^ 2)) (vecmat (map uminus zc) Rpihalf)])"

text \<open>One pass of the loop over the landmarks: the two slice assignments into \<open>H\<close>.\<close>

definition h_jac_step :: "config \<Rightarrow> vec \<Rightarrow> npfloat list list \<Rightarrow> nat \<Rightarrow> npfloat list list" where
  "h_jac_step cfg eta H i =
     (let indx = 2 * i; indm = 3 + i * 2
      in set_block (set_block H indx 0 (hj_Hx cfg eta i)) indx indm (hj_Hm cfg eta i))"

definition h_jac :: "config \<Rightarrow> vec \<Rightarrow> error + npfloat list list" where
  "h_jac cfg eta =
     (if 3 < length eta \<and> odd (length eta - 3) then Inl ValueError
      else if length eta < 3 then Inl IndexError
      else
        let numM = n_landmarks eta;
            H = zeros (2 * numM) (3 + 2 * numM)
        in Inr (foldl (h_jac_step cfg eta) H [0..<numM]))"

text \<open>
  The entry of the Jacobian at row \<open>r\<close> and column \<open>c\<close> in terms of the blocks of the
  loop: the pose block \<open>Hx\<close> of landmark \<open>r div 2\<close> in the columns 0 to 2, its block
  \<open>Hm\<close> in its own two columns, zero elsewhere.
\<close>

definition hj_entry :: "config \<Rightarrow> vec \<Rightarrow> nat \<Rightarrow> nat \<Rightarrow> npfloat" where
  "hj_entry cfg eta r c =
     (if c < 3 then hj_Hx cfg eta (r div 2) ! (r mod 2) ! c
      else if (c - 3) div 2 = r div 2 then hj_Hm cfg eta (r div 2) ! (r mod 2) ! ((c - 3) mod 2)
      else 0)"

text \<open>The position of the sensor in the world frame: the robot position plus the rotated offset.\<close>

definition sensor_position :: "config \<Rightarrow> vec \<Rightarrow> vec" where
  "sensor_position cfg eta = vec_add (take 2 eta) (matvec (rotmat2d (eta ! 2)) (sensor_offset cfg))"

section \<open>State augmentation\<close>

text \<open>
  \<open>EKFSLAM.add_landmarks\<close>. Pass \<open>j\<close> of the loop reads the measurement
  \<open>z[2j], z[2j+1]\<close> and writes the slice \<open>[2j, 2j+2)\<close> of \<open>lmnew\<close>, the same rows of
  \<open>Gx\<close> and the diagonal block of \<open>Rall\<close>; the three functions below give what it
  writes.
\<close>

definition al_lmnew :: "config \<Rightarrow> vec \<Rightarrow> vec \<Rightarrow> nat \<Rightarrow> vec" where
  "al_lmnew cfg eta z j =
     (let zrj = z ! (2 * j); zphij = z ! (2 * j + 1); psi = eta ! 2;
          sensor_offset_world = matvec (rotmat2d (eta ! 2)) (sensor_offset cfg);
          z_c = [zrj * cos zphij, zrj * sin zphij]
      in vec_add (vec_add [eta ! 0, eta ! 1] (matvec (rotmat2d psi) z_c)) sensor_offset_world)"

definition al_Gx :: "config \<Rightarrow> vec \<Rightarrow> vec \<Rightarrow> nat \<Rightarrow> mat" where
  "al_Gx cfg eta z j =
     (let zrj = z ! (2 * j); zphij = z ! (2 * j + 1); psi = eta ! 2;
          sensor_offset_world_der = matvec (rotmat2d (eta ! 2 + pi / 2)) (sensor_offset cfg);
          vec = [- sin (zphij + psi), cos (zphij + psi)];
          c = vec_add (map (\<lambda>a. zrj * a) vec) sensor_offset_world_der
      in [[1, 0, c ! 0], [0, 1, c ! 1]])"

definition al_Gz :: "vec \<Rightarrow> vec \<Rightarrow> nat \<Rightarrow> mat" where
  "al_Gz eta z j =
     (let zrj = z ! (2 * j); zphij = z ! (2 * j + 1); psi = eta ! 2;
          rot = rotmat2d (zphij + psi);
          IGz = [[1, 0], [0, zrj]]
      in matmul rot IGz)"

definition al_Gz_c :: "config \<Rightarrow> vec \<Rightarrow> vec \<Rightarrow> nat \<Rightarrow> mat" where
  "al_Gz_c cfg eta z j = matmul (matmul (al_Gz eta z j) (R cfg)) (matT (al_Gz eta z j))"

text \<open>
  The arrays after the loop (\<open>numLmk = z.shape[0] // 2\<close> passes) and the covariance
  assembled from them: \<open>block2\<close>, \<open>block_diag(P, block2)\<close>, then the two assignments
  to the corner blocks \<open>Padded[:n, n:]\<close> and \<open>Padded[n:, :n]\<close>.
\<close>

definition al_lmnew_all :: "config \<Rightarrow> vec \<Rightarrow> vec \<Rightarrow> vec" where
  "al_lmnew_all cfg eta z = concat (map (al_lmnew cfg eta z) [0..<length z div 2])"

definition al_Gx_all :: "config \<Rightarrow> vec \<Rightarrow> vec \<Rightarrow> mat" where
  "al_Gx_all cfg eta z = concat (map (al_Gx cfg eta z) [0..<length z div 2])"

definition al_Rall :: "config \<Rightarrow> vec \<Rightarrow> vec \<Rightarrow> mat" where
  "al_Rall cfg eta z =
     (let numLmk = length z div 2
      in foldl (\<lambda>Rall j. set_block Rall (2 * j) (2 * j) (al_Gz_c cfg eta z j))
           (zeros (numLmk * 2) (numLmk * 2)) [0..<numLmk])"

definition al_block2 :: "config \<Rightarrow> vec \<Rightarrow> mat \<Rightarrow> vec \<Rightarrow> mat" where
  "al_block2 cfg eta P z =
     (let Gx = al_Gx_all cfg eta z
      in mat_add (matmul (matmul Gx (slice2 P 0 3 0 3)) (matT Gx)) (al_Rall cfg eta z))"

definition al_Padded :: "config \<Rightarrow> vec \<Rightarrow> mat \<Rightarrow> vec \<Rightarrow> mat" where
  "al_Padded cfg eta P z =
     (let n = length P;
          Gx = al_Gx_all cfg eta z;
          Padded0 = block_diag P (al_block2 cfg eta P z);
          Pcolon_x = map (take 3) P;
          Padded1 = set_block Padded0 0 n (matmul Pcolon_x (matT Gx))
      in set_block Padded1 n 0 (matT (map (drop n) (take n Padded1))))"

text \<open>
  \<open>lmnew = np.empty_like(z)\<close> has the length of \<open>z\<close>, so the assertion on the length of
  \<open>lmnew\<close> fails for a \<open>z\<close> of odd length. The products with \<open>P[0:3, 0:3]\<close> and the
  assignment of the corner blocks raise ValueError unless \<open>P\<close> is square with at least
  three rows.
\<close>

definition add_landmarks :: "config \<Rightarrow> vec \<Rightarrow> mat \<Rightarrow> vec \<Rightarrow> error + (vec \<times> mat)" where
  "add_landmarks cfg eta P z =
     (let n = length P in
      if length eta < 3 then Inl IndexError
      else if length z mod 2 \<noteq> 0 then Inl AssertionError
      else
        let etaadded = eta @ al_lmnew_all cfg eta z in
        if n < 3 \<or> \<not> is_mat n n P then Inl ValueError
        else
          let Padded = al_Padded cfg eta P z
          in if \<not> is_mat (length etaadded) (length etaadded) Padded then Inl AssertionError
             else if \<not> allclose Padded (matT Padded) then Inl AssertionError
             else if \<not> eigvals_ge0 Padded then Inl AssertionError
             else Inr (etaadded, Padded))"

section \<open>Association and update\<close>

text \<open>
  \<open>JCBB\<close> is imported from a module that is not among the sources of the filter, and the
  Cholesky routines are scipy's: both are parameters of the model. \<open>JCBB z zpred S a0 a1\<close>
  returns the association vector; \<open>cho_inv Sa\<close> stands for
  \<open>la.cho_solve(la.cho_factor(Sa), np.eye(...))\<close>, the inverse of \<open>Sa\<close> or an error.
\<close>

type_synonym jcbb = "vec \<Rightarrow> vec \<Rightarrow> npfloat list list \<Rightarrow> real \<Rightarrow> real \<Rightarrow> int list"
type_synonym cho = "mat \<Rightarrow> error + mat"

text \<open>
  \<open>EKFSLAM.associate\<close>. With \<open>do_asso\<close> false the function falls through its
  \<open>else: pass\<close> and returns \<open>None\<close>.
\<close>

definition associate ::
  "config \<Rightarrow> jcbb \<Rightarrow> vec \<Rightarrow> vec \<Rightarrow> npfloat list list \<Rightarrow> npfloat list list \<Rightarrow>
   error + (vec \<times> vec \<times> npfloat list list \<times> npfloat list list \<times> int list) option" where
  "associate cfg JCBB z zpred H S =
     (if do_asso cfg then
        let a = JCBB z zpred S (alphas cfg ! 0) (alphas cfg ! 1) in
        if length a \<noteq> (length z + 1) div 2 \<or> odd (length z) then Inl ValueError
        else
          let zass = concat (map (\<lambda>i. [z ! (2 * i), z ! (2 * i + 1)])
                               (filter (\<lambda>i. - 1 < a ! i) [0..<length a]));
              zbarinds = concat (map (\<lambda>k. [2 * k, 2 * k + 1]) (filter (\<lambda>k. - 1 < k) a))
          in if list_ex (\<lambda>k. int (length zpred) \<le> k) zbarinds then Inl IndexError
             else
               let zpredass = map (\<lambda>k. zpred ! nat k) zbarinds;
                   Sass = map (\<lambda>k. map (\<lambda>l. S ! nat k ! nat l) zbarinds) zbarinds;
                   Hass = map (\<lambda>k. H ! nat k) zbarinds
               in if length zpredass \<noteq> length zass then Inl AssertionError
                  else if \<not> is_mat (length zpredass) (length zpredass) Sass then Inl AssertionError
                  else if length Hass \<noteq> length zpredass then Inl AssertionError
                  else Inr (Some (zass, zpredass, Hass, Sass, a))
      else Inr None)"

text \<open>
  The branch \<open>numLmk > 0\<close> of \<open>EKFSLAM.update\<close>, up to the values of
  \<open>etaupd, Pupd, NIS, a\<close>. Unpacking the result of \<open>associate\<close> raises TypeError when it
  is \<open>None\<close>. \<open>la.cho_factor\<close> checks that its argument is finite and raises ValueError
  otherwise; the rows of \<open>Ha\<close> are finite whenever \<open>Sa\<close> is.
\<close>

definition update_known ::
  "config \<Rightarrow> jcbb \<Rightarrow> cho \<Rightarrow> nat \<Rightarrow> vec \<Rightarrow> mat \<Rightarrow> vec \<Rightarrow> error + (vec \<times> mat \<times> real \<times> int list)" where
  "update_known cfg JCBB cho_inv numLmk eta P z =
     (case h cfg eta of Inl e \<Rightarrow> Inl e | Inr zpred \<Rightarrow>
      case h_jac cfg eta of Inl e \<Rightarrow> Inl e | Inr H \<Rightarrow>
        if \<not> is_mat (length eta) (length eta) P then Inl ValueError
        else
          let big_R = kron_eye numLmk (R cfg);
              S = mat_add (matmul (matmul H (map (map Fin) P)) (matT H)) (map (map Fin) big_R)
          in if \<not> is_mat (length zpred) (length zpred) S then Inl AssertionError
             else
               case associate cfg JCBB z zpred H S of
                 Inl e \<Rightarrow> Inl e
               | Inr None \<Rightarrow> Inl TypeError
               | Inr (Some (za, zpred', Ha, Sa, a)) \<Rightarrow>
                   if length za = 0 then Inr (eta, P, 1, a)
                   else
                     let v0 = vec_sub za zpred';
                         v = map (\<lambda>k. if odd k then wrapToPi (v0 ! k) else v0 ! k) [0..<length v0]
                     in if \<not> list_all (list_all is_fin) Sa then Inl ValueError
                        else
                          case cho_inv (map (map fin_val) Sa) of
                            Inl e \<Rightarrow> Inl e
                          | Inr S_inv \<Rightarrow>
                              let Ha' = map (map fin_val) Ha;
                                  W = matmul (matmul P (matT Ha')) S_inv;
                                  etaupd = vec_add eta (matvec W v);
                                  jo = mat_add (matmul (map (map uminus) W) Ha') (eye (length W));
                                  dim_big_R = ncols W div 2;
                                  big_R' = kron_eye dim_big_R (R cfg);
                                  Pupd = mat_add (matmul (matmul jo P) (matT jo))
                                           (matmul (matmul W big_R') (matT W));
                                  NIS = dot (vecmat v S_inv) v
                              in if \<not> allclose Pupd (matT Pupd) then Inl AssertionError
                                 else if \<not> eigvals_gt0 Pupd then Inl AssertionError
                                 else Inr (etaupd, Pupd, NIS, a))"

text \<open>
  \<open>EKFSLAM.update\<close>. The measurements \<open>z\<close> have shape \<open>(#detections, 2)\<close>: a list of
  (range, bearing) pairs; \<open>z.ravel()\<close> and \<open>z.flatten()\<close> lay them out in one row.
\<close>

definition ravel :: "(real \<times> real) list \<Rightarrow> vec" where
  "ravel z = concat (map (\<lambda>(r, b). [r, b]) z)"

definition update ::
  "config \<Rightarrow> jcbb \<Rightarrow> cho \<Rightarrow> vec \<Rightarrow> mat \<Rightarrow> (real \<times> real) list \<Rightarrow>
   error + (vec \<times> mat \<times> real \<times> int list)" where
  "update cfg JCBB cho_inv eta P z =
     (let numLmk = (int (length eta) - 3) div 2 in
      if (int (length eta) - 3) mod 2 \<noteq> 0 then Inl AssertionError
      else
        case (if 0 < numLmk then update_known cfg JCBB cho_inv (nat numLmk) eta P (ravel z)
              else Inr (eta, P, 1, replicate (length z) (- 1))) of
          Inl e \<Rightarrow> Inl e
        | Inr (etaupd, Pupd, NIS, a) \<Rightarrow>
            (case (if do_asso cfg then
                     let is_new_lmk = map (\<lambda>k. k = - 1) a in
                     if list_ex (\<lambda>b. b) is_new_lmk then
                       let z_new = concat (map (\<lambda>i. [ravel z ! (2 * i), ravel z ! (2 * i + 1)])
                                            (filter (\<lambda>i. is_new_lmk ! i) [0..<length is_new_lmk]))
                       in add_landmarks cfg etaupd Pupd z_new
                     else Inr (etaupd, Pupd)
                   else Inr (etaupd, Pupd)) of
               Inl e \<Rightarrow> Inl e
             | Inr (etaupd', Pupd') \<Rightarrow>
                 if \<not> allclose Pupd' (matT Pupd') then Inl AssertionError
                 else if \<not> eigvals_ge0 Pupd' then Inl AssertionError
                 else Inr (etaupd', Pupd', NIS, a)))"

section \<open>Consistency metrics\<close>

text \<open>
  \<open>np.linalg.solve(A, b)\<close> for the two sizes the source uses: LinAlgError on a singular
  matrix, the solution of \<open>A x = b\<close> (by Cramer's rule) otherwise. numpy factorises in
  float64 and raises at an exact zero pivot, as for a matrix with a zero row; on other
  singular matrices rounding can leave a small pivot, and numpy then returns large values
  where the model raises. On a matrix that is not singular the two agree, rounding apart.
\<close>

definition det2 :: "mat \<Rightarrow> real" where
  "det2 A = A ! 0 ! 0 * A ! 1 ! 1 - A ! 0 ! 1 * A ! 1 ! 0"

definition det3 :: "mat \<Rightarrow> real" where
  "det3 A =
     A ! 0 ! 0 * (A ! 1 ! 1 * A ! 2 ! 2 - A ! 1 ! 2 * A ! 2 ! 1)
     - A ! 0 ! 1 * (A ! 1 ! 0 * A ! 2 ! 2 - A ! 1 ! 2 * A ! 2 ! 0)
     + A ! 0 ! 2 * (A ! 1 ! 0 * A ! 2 ! 1 - A ! 1 ! 1 * A ! 2 ! 0)"

definition replace_col :: "mat \<Rightarrow> nat \<Rightarrow> vec \<Rightarrow> mat" where
  "replace_col A j b = map2 (\<lambda>r bi. r[j := bi]) A b"

definition solve2 :: "mat \<Rightarrow> vec \<Rightarrow> error + vec" where
  "solve2 A b =
     (if det2 A = 0 then Inl LinAlgError
      else Inr (map (\<lambda>j. det2 (replace_col A j b) / det2 A) [0..<2]))"

definition solve3 :: "mat \<Rightarrow> vec \<Rightarrow> error + vec" where
  "solve3 A b =
     (if det3 A = 0 then Inl LinAlgError
      else Inr (map (\<lambda>j. det3 (replace_col A j b) / det3 A) [0..<3]))"

text \<open>\<open>NEESes >= 0\<close> on one float64 value.\<close>

definition np_ge0 :: "npfloat \<Rightarrow> bool" where
  "np_ge0 x = (case x of Fin a \<Rightarrow> 0 \<le> a | PInf \<Rightarrow> True | NInf \<Rightarrow> False | NaN \<Rightarrow> False)"

text \<open>
  \<open>EKFSLAM.NEESes\<close>. \<open>d_heading ** 2 / P_heading\<close> divides two float64 scalars, which
  never raises ZeroDivisionError: the \<open>except\<close> branch of the source is not reached, and
  the value of the quotient is that of \<open>np_div\<close>. The line
  \<open>NEESes[np.isnan(NEESes)] = 1.0\<close> replaces the NaN entries.
\<close>

definition NEESes :: "vec \<Rightarrow> mat \<Rightarrow> vec \<Rightarrow> error + npfloat list" where
  "NEESes x P x_gt =
     (if length x \<noteq> 3 then Inl AssertionError
      else if \<not> is_mat 3 3 P then Inl AssertionError
      else if length x_gt \<noteq> 3 then Inl AssertionError
      else
        let d_x0 = vec_sub x x_gt;
            d_x = d_x0[2 := wrapToPi (d_x0 ! 2)]
        in if \<not> (- pi \<le> d_x ! 2 \<and> d_x ! 2 \<le> pi) then Inl AssertionError
           else
             let d_p = take 2 d_x;
                 P_p = slice2 P 0 2 0 2;
                 d_heading = d_x ! 2;
                 P_heading = P ! 2 ! 2
             in case solve3 P d_x of Inl e \<Rightarrow> Inl e | Inr s_all \<Rightarrow>
                case solve2 P_p d_p of Inl e \<Rightarrow> Inl e | Inr s_pos \<Rightarrow>
                  let NEES_all = dot d_x s_all;
                      NEES_pos = dot d_p s_pos;
                      NEES_heading = np_div (d_heading ^ 2) P_heading;
                      NEESes0 = [Fin NEES_all, Fin NEES_pos, NEES_heading];
                      NEESes1 = map (\<lambda>v. if v = NaN then Fin 1 else v) NEESes0
                  in if \<not> list_all np_ge0 NEESes1 then Inl AssertionError
                     else Inr NEESes1)"

section \<open>Inputs of the examples\<close>

text \<open>
  A configuration with unit noise covariances, association enabled, the default gates and
  no sensor offset; and the covariance that augmenting the pose (0, 0, 0) with unit
  covariance by the measurement (2, 0) produces under it.
\<close>

definition ex_cfg :: config where
  "ex_cfg = \<lparr>Q = [[1, 0, 0], [0, 1, 0], [0, 0, 1]], R = [[1, 0], [0, 1]], do_asso = True,
            alphas = [1 / 1000, 1 / 10000], sensor_offset = [0, 0]\<rparr>"

definition ex_Padded :: mat where
  "ex_Padded = [[1, 0, 0, 1, 0], [0, 1, 0, 0, 1], [0, 0, 1, 0, 2], [1, 0, 0, 2, 0], [0, 1, 2, 0, 9]]"

text \<open>
  A state with one landmark and zero covariance, the covariance \<open>predict\<close> computes
  from it under \<open>ex_cfg\<close> with zero odometry, and the 3x3 identity and zero matrices.
\<close>

definition ex_P0 :: mat where
  "ex_P0 = [[0, 0, 0, 0, 0], [0, 0, 0, 0, 0], [0, 0, 0, 0, 0], [0, 0, 0, 0, 0], [0, 0, 0, 0, 0]]"

definition ex_P0_pred :: mat where
  "ex_P0_pred = [[1, 0, 0, 0, 0], [0, 1, 0, 0, 0], [0, 0, 1, 0, 0], [0, 0, 0, 0, 0], [0, 0, 0, 0, 0]]"

definition ex_I3 :: mat where
  "ex_I3 = [[1, 0, 0], [0, 1, 0], [0, 0, 1]]"

definition ex_Z3 :: mat where
  "ex_Z3 = [[0, 0, 0], [0, 0, 0], [0, 0, 0]]"

text \<open>The 5x5 identity: a positive definite covariance of a state with one landmark.\<close>

definition ex_I5 :: mat where
  "ex_I5 = [[1, 0, 0, 0, 0], [0, 1, 0, 0, 0], [0, 0, 1, 0, 0], [0, 0, 0, 1, 0], [0, 0, 0, 0, 1]]"

text \<open>
  A state with one landmark whose pose is known exactly and whose landmark has unit
  covariance; and the tests on the eigenvalues as the exact spectrum decides them.
\<close>

definition ex_Pm :: mat where
  "ex_Pm = [[0, 0, 0, 0, 0], [0, 0, 0, 0, 0], [0, 0, 0, 0, 0], [0, 0, 0, 1, 0], [0, 0, 0, 0, 1]]"

definition exact_eigvals :: eigvals_test where
  "exact_eigvals = \<lparr>all_ge0 = eigvals_ge0, all_gt0 = eigvals_gt0\<rparr>"

section \<open>Lemmas on the array operations\<close>

lemma wrapToPi_0: "wrapToPi 0 = 0"
proof -
  have "\<lceil>(0 - pi) / (2 * pi)\<rceil> = (0::int)"
    by (simp add: ceiling_eq_iff)
  then show ?thesis by (simp add: wrapToPi_def)
qed

lemma wrapToPi_id: "- pi < a \<Longrightarrow> a \<le> pi \<Longrightarrow> wrapToPi a = a"
proof -
  assume a: "- pi < a" "a \<le> pi"
  have "\<lceil>(a - pi) / (2 * pi)\<rceil> = (0::int)"
    using a pi_gt_zero by (simp add: ceiling_eq_iff field_simps)
  then show ?thesis by (simp add: wrapToPi_def)
qed

lemma wrapToPi_1: "wrapToPi 1 = 1"
  using pi_ge_two pi_gt_zero by (intro wrapToPi_id) auto

lemma dot_Nil [simp]: "dot [] ys = 0" "dot xs [] = 0"
  by (simp_all add: dot_def)

lemma dot_Cons [simp]: "dot (x # xs) (y # ys) = x * y + dot xs ys"
  by (simp add: dot_def)

lemma length_matmul [simp]: "length (matmul A B) = length A"
  by (simp add: matmul_def)

lemma nth_matmul_length [simp]: "i < length A \<Longrightarrow> length (matmul A B ! i) = ncols B"
  by (simp add: matmul_def)

lemma is_mat_matmul: "is_mat (length A) (ncols B) (matmul A B)"
  by (simp add: is_mat_def matmul_def list_all_iff)

lemma ncols_is_mat: "is_mat r c A \<Longrightarrow> 0 < r \<Longrightarrow> ncols A = c"
  by (cases A) (auto simp: is_mat_def ncols_def)

lemma is_mat_nth: "is_mat r c A \<Longrightarrow> i < r \<Longrightarrow> length (A ! i) = c"
  by (auto simp: is_mat_def list_all_length)

lemma is_mat_iff: "is_mat r c A \<longleftrightarrow> length A = r \<and> (\<forall>i<r. length (A ! i) = c)"
  by (auto simp: is_mat_def list_all_length)

lemma length_matT [simp]: "length (matT A) = ncols A"
  by (simp add: matT_def)

lemma is_mat_matT: "is_mat (ncols A) (length A) (matT A)"
  by (simp add: is_mat_def matT_def col_def list_all_iff)

lemma length_set_row_part: "c + length b \<le> length r \<Longrightarrow> length (set_row_part r c b) = length r"
  by (simp add: set_row_part_def)

lemma nth_set_row_part:
  "c + length b \<le> length r \<Longrightarrow> j < length r \<Longrightarrow>
   set_row_part r c b ! j = (if c \<le> j \<and> j < c + length b then b ! (j - c) else r ! j)"
  by (auto simp: set_row_part_def nth_append)

lemma length_set_block [simp]: "length (set_block A r c B) = length A"
  by (simp add: set_block_def)

lemma nth_set_block:
  "i < length A \<Longrightarrow>
   set_block A r c B ! i =
     (if r \<le> i \<and> i < r + length B then set_row_part (A ! i) c (B ! (i - r)) else A ! i)"
  by (simp add: set_block_def)

lemma is_mat_set_block:
  assumes "is_mat m n A" "is_mat p q B" "r + p \<le> m" "c + q \<le> n"
  shows "is_mat m n (set_block A r c B)"
  using assms
  by (auto simp: is_mat_iff nth_set_block length_set_row_part)

lemma nth_nth_set_block:
  assumes "is_mat m n A" "is_mat p q B" "r + p \<le> m" "c + q \<le> n" "i < m" "j < n"
  shows "set_block A r c B ! i ! j =
     (if r \<le> i \<and> i < r + p \<and> c \<le> j \<and> j < c + q then B ! (i - r) ! (j - c) else A ! i ! j)"
  using assms
  by (auto simp: is_mat_iff nth_set_block nth_set_row_part)

lemma is_mat_zeros: "is_mat r c (zeros r c)"
  by (simp add: is_mat_def zeros_def list_all_iff)

lemma nth_zeros: "i < r \<Longrightarrow> j < c \<Longrightarrow> zeros r c ! i ! j = 0"
  by (simp add: zeros_def)

lemma length_vec_sub [simp]: "length (vec_sub xs ys) = min (length xs) (length ys)"
  by (simp add: vec_sub_def)

lemma length_matvec [simp]: "length (matvec A v) = length A"
  by (simp add: matvec_def)

lemma length_vecmat [simp]: "length (vecmat v B) = ncols B"
  by (simp add: vecmat_def)

lemma length_hj_zc: "2 \<le> length eta \<Longrightarrow> length (hj_zc cfg eta i) = 2"
  by (simp add: hj_zc_def hj_delta_m_def landmark_def rotmat2d_def)

lemma is_mat_hj_Hx: "is_mat 2 3 (hj_Hx cfg eta i)"
  by (simp add: is_mat_def hj_Hx_def hj_jac_z_cb_def Let_def ncols_def)

lemma is_mat_hj_Hm: "2 \<le> length eta \<Longrightarrow> is_mat 2 2 (hj_Hm cfg eta i)"
  by (simp add: is_mat_def hj_Hm_def Let_def ncols_def length_hj_zc rotmat2d_def)

lemma h_jac_fold:
  assumes eta: "2 \<le> length eta" and k: "k \<le> L"
  shows "is_mat (2 * L) (3 + 2 * L) (foldl (h_jac_step cfg eta) (zeros (2 * L) (3 + 2 * L)) [0..<k]) \<and>
    (\<forall>r<2 * L. \<forall>c<3 + 2 * L.
       foldl (h_jac_step cfg eta) (zeros (2 * L) (3 + 2 * L)) [0..<k] ! r ! c =
         (if r div 2 < k then hj_entry cfg eta r c else 0))"
  using k
proof (induction k)
  case 0
  show ?case by (simp add: is_mat_zeros nth_zeros)
next
  case (Suc k)
  define H where "H = foldl (h_jac_step cfg eta) (zeros (2 * L) (3 + 2 * L)) [0..<k]"
  define H1 where "H1 = set_block H (2 * k) 0 (hj_Hx cfg eta k)"
  have kL: "k < L" using Suc.prems by simp
  have H: "is_mat (2 * L) (3 + 2 * L) H"
    and Hnth: "\<And>r c. r < 2 * L \<Longrightarrow> c < 3 + 2 * L \<Longrightarrow>
       H ! r ! c = (if r div 2 < k then hj_entry cfg eta r c else 0)"
    using Suc.IH kL unfolding H_def by auto
  have H1: "is_mat (2 * L) (3 + 2 * L) H1"
    unfolding H1_def by (rule is_mat_set_block[OF H is_mat_hj_Hx]) (use kL in auto)
  have step: "foldl (h_jac_step cfg eta) (zeros (2 * L) (3 + 2 * L)) [0..<Suc k]
      = set_block H1 (2 * k) (3 + 2 * k) (hj_Hm cfg eta k)"
    by (simp add: H_def H1_def h_jac_step_def Let_def mult.commute)
  have H2: "is_mat (2 * L) (3 + 2 * L) (set_block H1 (2 * k) (3 + 2 * k) (hj_Hm cfg eta k))"
    by (rule is_mat_set_block[OF H1 is_mat_hj_Hm[OF eta]]) (use kL in auto)
  have nth: "set_block H1 (2 * k) (3 + 2 * k) (hj_Hm cfg eta k) ! r ! c =
         (if r div 2 < Suc k then hj_entry cfg eta r c else 0)"
    if r: "r < 2 * L" and c: "c < 3 + 2 * L" for r c
  proof -
    have e2: "set_block H1 (2 * k) (3 + 2 * k) (hj_Hm cfg eta k) ! r ! c =
       (if 2 * k \<le> r \<and> r < 2 * k + 2 \<and> 3 + 2 * k \<le> c \<and> c < 3 + 2 * k + 2
        then hj_Hm cfg eta k ! (r - 2 * k) ! (c - (3 + 2 * k)) else H1 ! r ! c)"
      by (rule nth_nth_set_block[OF H1 is_mat_hj_Hm[OF eta] _ _ r c]) (use kL in auto)
    have e1: "H1 ! r ! c =
       (if 2 * k \<le> r \<and> r < 2 * k + 2 \<and> 0 \<le> c \<and> c < 0 + 3
        then hj_Hx cfg eta k ! (r - 2 * k) ! (c - 0) else H ! r ! c)"
      unfolding H1_def by (rule nth_nth_set_block[OF H is_mat_hj_Hx _ _ r c]) (use kL in auto)
    show ?thesis
    proof (cases "r div 2 = k")
      case True
      then have rk: "2 * k \<le> r" "r < 2 * k + 2" "r - 2 * k = r mod 2" by presburger+
      show ?thesis
      proof (cases "c < 3")
        case True
        then show ?thesis using e1 e2 rk \<open>r div 2 = k\<close> by (simp add: hj_entry_def)
      next
        case False
        show ?thesis
        proof (cases "(c - 3) div 2 = k")
          case True
          then have "3 + 2 * k \<le> c" "c < 3 + 2 * k + 2" "c - (3 + 2 * k) = (c - 3) mod 2"
            using False by presburger+
          then show ?thesis using e2 rk \<open>r div 2 = k\<close> True False by (simp add: hj_entry_def)
        next
          case F2: False
          then have "\<not> (3 + 2 * k \<le> c \<and> c < 3 + 2 * k + 2)" using False by presburger
          then show ?thesis
            using e1 e2 rk \<open>r div 2 = k\<close> F2 False Hnth[OF r c] by (auto simp: hj_entry_def)
        qed
      qed
    next
      case False
      then have "\<not> (2 * k \<le> r \<and> r < 2 * k + 2)" by presburger
      then show ?thesis using e1 e2 Hnth[OF r c] False by (auto simp: less_Suc_eq)
    qed
  qed
  show ?case unfolding step using H2 nth by blast
qed

lemma np_plus_Fin [simp]: "Fin a + Fin b = Fin (a + b)"
  by (simp add: plus_npfloat_def)

lemma np_times_Fin [simp]: "Fin a * Fin b = Fin (a * b)"
  by (simp add: times_npfloat_def)

lemma np_NaN_plus [simp]: "NaN + x = NaN" "x + NaN = NaN"
  by (cases x; simp add: plus_npfloat_def)+

lemma np_NaN_times [simp]: "NaN * x = NaN" "x * NaN = NaN"
  by (cases x; simp add: times_npfloat_def)+

lemma np_zero_Fin: "(0::npfloat) = Fin 0"
  by (simp add: zero_npfloat_def)

lemma nth_vecmat: "c < ncols B \<Longrightarrow> vecmat v B ! c = dot v (col B c)"
  by (simp add: vecmat_def)

lemma h_jac_entries:
  assumes "length eta = 3 + 2 * L"
  shows "\<exists>H. h_jac cfg eta = Inr H \<and> is_mat (2 * L) (3 + 2 * L) H
     \<and> (\<forall>r<2 * L. \<forall>c<3 + 2 * L. H ! r ! c = hj_entry cfg eta r c)"
proof -
  have n: "n_landmarks eta = L" using assms by (simp add: n_landmarks_def)
  have "h_jac cfg eta = Inr (foldl (h_jac_step cfg eta) (zeros (2 * L) (3 + 2 * L)) [0..<L])"
    using assms by (simp add: h_jac_def n Let_def)
  moreover have "2 \<le> length eta" using assms by simp
  note h_jac_fold[OF this order_refl, of L cfg]
  ultimately show ?thesis by auto
qed

lemma vec2: "length v = 2 \<Longrightarrow> \<exists>a b. v = [a, b]"
  by (auto simp: numeral_2_eq_2 length_Suc_conv)

lemma norm2_pair: "norm2 [a, b] = sqrt (a * a + b * b)"
  by (simp add: norm2_def)

lemma norm2_pair_zero: "norm2 [a, b] = 0 \<longleftrightarrow> a = 0 \<and> b = 0"
  by (simp add: norm2_pair sum_squares_eq_zero_iff[unfolded power2_eq_square] flip: power2_eq_square)

lemma take2: "2 \<le> length xs \<Longrightarrow> take 2 xs = [xs ! 0, xs ! 1]"
  by (cases xs; cases "tl xs") (auto simp: numeral_2_eq_2)

lemma hj_zc_explicit:
  assumes "3 \<le> length eta" "length (sensor_offset cfg) = 2"
  shows "hj_zc cfg eta i =
     [landmark eta i ! 0 - sensor_position cfg eta ! 0, landmark eta i ! 1 - sensor_position cfg eta ! 1]"
proof -
  obtain a b where o: "sensor_offset cfg = [a, b]" using vec2[OF assms(2)] by blast
  have t: "take 2 (take 3 eta) = [eta ! 0, eta ! 1]" "take 2 eta = [eta ! 0, eta ! 1]"
    using assms(1) by (simp_all add: take2)
  have n: "take 3 eta ! 2 = eta ! 2" by simp
  show ?thesis
    by (simp add: hj_zc_def hj_delta_m_def sensor_position_def t n o landmark_def vec_sub_def
        vec_add_def matvec_def rotmat2d_def algebra_simps)
qed

lemma sensor_position_explicit:
  assumes "3 \<le> length eta" "length (sensor_offset cfg) = 2"
  shows "sensor_position cfg eta = [sensor_position cfg eta ! 0, sensor_position cfg eta ! 1]"
proof -
  obtain a b where o: "sensor_offset cfg = [a, b]" using vec2[OF assms(2)] by blast
  have t: "take 2 eta = [eta ! 0, eta ! 1]"
    using assms(1) by (simp_all add: take2)
  show ?thesis
    by (simp add: sensor_position_def t o vec_add_def matvec_def rotmat2d_def)
qed

lemma zero_range_iff:
  assumes "3 \<le> length eta" "length (sensor_offset cfg) = 2"
  shows "hj_zpred_r cfg eta i = 0 \<longleftrightarrow> landmark eta i = sensor_position cfg eta"
proof -
  have "landmark eta i = [landmark eta i ! 0, landmark eta i ! 1]"
    by (simp add: landmark_def)
  then have "landmark eta i = sensor_position cfg eta \<longleftrightarrow>
       landmark eta i ! 0 = sensor_position cfg eta ! 0 \<and> landmark eta i ! 1 = sensor_position cfg eta ! 1"
    using sensor_position_explicit[OF assms] by (metis list.inject)
  then show ?thesis
    by (simp add: hj_zpred_r_def hj_zc_explicit[OF assms] norm2_pair_zero)
qed

lemma mod2_cases: "(r::nat) mod 2 = 0 \<or> r mod 2 = Suc 0"
  by presburger

lemma hj_blocks_fin:
  assumes "2 \<le> length eta" "hj_zpred_r cfg eta i \<noteq> 0" "k = 0 \<or> k = Suc 0"
  shows "c < 3 \<Longrightarrow> is_fin (hj_Hx cfg eta i ! k ! c)"
    and "d = 0 \<or> d = Suc 0 \<Longrightarrow> is_fin (hj_Hm cfg eta i ! k ! d)"
proof -
  obtain a b where zc: "hj_zc cfg eta i = [a, b]"
    using vec2[OF length_hj_zc[OF assms(1)]] by blast
  have c3: "c < 3 \<Longrightarrow> c = 0 \<or> c = 1 \<or> c = 2" by presburger
  show "c < 3 \<Longrightarrow> is_fin (hj_Hx cfg eta i ! k ! c)"
    using assms(2,3) c3
    by (auto simp: hj_Hx_def hj_jac_z_cb_def Let_def zc ncols_def col_def
        np_div_def is_fin_def np_zero_Fin vecmat_def rotmat2d_def matT_def)
  show "d = 0 \<or> d = Suc 0 \<Longrightarrow> is_fin (hj_Hm cfg eta i ! k ! d)"
    using assms(2,3)
    by (auto simp: hj_Hm_def Let_def zc ncols_def col_def
        np_div_def is_fin_def np_zero_Fin vecmat_def rotmat2d_def matT_def)
qed

lemma hj_blocks_nan:
  assumes "2 \<le> length eta" "hj_zpred_r cfg eta i = 0" "k = 0 \<or> k = Suc 0"
  shows "c < 3 \<Longrightarrow> hj_Hx cfg eta i ! k ! c = NaN"
    and "d = 0 \<or> d = Suc 0 \<Longrightarrow> hj_Hm cfg eta i ! k ! d = NaN"
proof -
  obtain a b where zc: "hj_zc cfg eta i = [a, b]"
    using vec2[OF length_hj_zc[OF assms(1)]] by blast
  have ab: "a = 0" "b = 0" using assms(2) by (simp_all add: hj_zpred_r_def zc norm2_pair_zero)
  have c3: "c < 3 \<Longrightarrow> c = 0 \<or> c = 1 \<or> c = 2" by presburger
  have r0: "hj_zpred_r cfg eta i = 0" by (rule assms(2))
  show "c < 3 \<Longrightarrow> hj_Hx cfg eta i ! k ! c = NaN"
    using assms(3) c3
    by (auto simp: hj_Hx_def hj_jac_z_cb_def Let_def zc ab r0 ncols_def col_def
        np_div_def vecmat_def rotmat2d_def matT_def)
  show "d = 0 \<or> d = Suc 0 \<Longrightarrow> hj_Hm cfg eta i ! k ! d = NaN"
    using assms(3)
    by (auto simp: hj_Hm_def Let_def zc ab r0 ncols_def col_def
        np_div_def vecmat_def rotmat2d_def matT_def)
qed

lemma hj_entry_fin:
  assumes "2 \<le> length eta" "hj_zpred_r cfg eta (r div 2) \<noteq> 0"
  shows "is_fin (hj_entry cfg eta r c)"
  using hj_blocks_fin(1)[OF assms mod2_cases[of r], of c]
    hj_blocks_fin(2)[OF assms mod2_cases[of r], of "(c - 3) mod 2"] mod2_cases[of "c - 3"]
  by (simp add: hj_entry_def np_zero_Fin is_fin_def)

lemma hj_entry_nan:
  assumes "2 \<le> length eta" "hj_zpred_r cfg eta (r div 2) = 0" "c < 3 \<or> (c - 3) div 2 = r div 2"
  shows "hj_entry cfg eta r c = NaN"
  using hj_blocks_nan(1)[OF assms(1,2) mod2_cases[of r], of c]
    hj_blocks_nan(2)[OF assms(1,2) mod2_cases[of r], of "(c - 3) mod 2"] mod2_cases[of "c - 3"] assms(3)
  by (auto simp add: hj_entry_def)

lemma length_concat_upt:
  "(\<And>i. i < n \<Longrightarrow> length (g i) = k) \<Longrightarrow> length (concat (map g [0..<n])) = n * k"
  by (induction n) simp_all

lemma length_h:
  assumes "length eta = 3 + 2 * L"
  shows "\<exists>zpred. h cfg eta = Inr zpred \<and> length zpred = 2 * L"
proof -
  have n: "n_landmarks eta = L" using assms by (simp add: n_landmarks_def)
  show ?thesis using assms by (simp add: h_def n Let_def length_concat_upt[where k = 2])
qed

lemma is_mat_kron_eye:
  assumes "is_mat 2 2 R'"
  shows "is_mat (2 * L) (2 * L) (kron_eye L R')"
proof -
  have nc: "ncols R' = 2" using assms by (simp add: ncols_is_mat)
  have len: "length (kron_eye L R') = L * 2"
    unfolding kron_eye_def using assms by (intro length_concat_upt) (simp add: is_mat_def)
  have rows: "length row = 2 * L" if "row \<in> set (kron_eye L R')" for row
  proof -
    have "\<exists>i r. i < L \<and> r \<in> set R'
        \<and> row = replicate (i * ncols R') 0 @ r @ replicate ((L - 1 - i) * ncols R') 0"
      using that unfolding kron_eye_def set_concat by auto
    then obtain i r where i: "i < L" and r: "r \<in> set R'"
      and row: "row = replicate (i * ncols R') 0 @ r @ replicate ((L - 1 - i) * ncols R') 0"
      by blast
    have "length r = 2" using assms r by (auto simp: is_mat_def list_all_iff)
    then show ?thesis using i by (simp add: row nc algebra_simps)
  qed
  show ?thesis using len rows by (simp add: is_mat_def list_all_iff mult.commute)
qed

lemma is_mat_map_map: "is_mat r c A \<Longrightarrow> is_mat r c (map (map g) A)"
  by (simp add: is_mat_def list_all_iff)

lemma length_vec_add [simp]: "length (vec_add xs ys) = min (length xs) (length ys)"
  by (simp add: vec_add_def)

lemma is_mat_mat_add: "is_mat r c A \<Longrightarrow> is_mat r c B \<Longrightarrow> is_mat r c (mat_add A B)"
  by (auto simp: is_mat_iff mat_add_def)

lemma is_mat_matmul': "length A = r \<Longrightarrow> is_mat k c B \<Longrightarrow> 0 < k \<Longrightarrow> is_mat r c (matmul A B)"
  using is_mat_matmul[of A B] by (simp add: ncols_is_mat)

lemma is_mat_matT': "is_mat r c A \<Longrightarrow> 0 < r \<Longrightarrow> is_mat c r (matT A)"
  using is_mat_matT[of A] by (simp add: ncols_is_mat is_mat_def)

lemma update_known_no_asso:
  assumes "config_ok cfg" "\<not> do_asso cfg" "length eta = 3 + 2 * L" "0 < L"
    "is_mat (length eta) (length eta) P"
  shows "update_known cfg JCBB cho_inv L eta P z = Inl TypeError"
proof -
  obtain zpred where zp: "h cfg eta = Inr zpred" "length zpred = 2 * L"
    using length_h[OF assms(3)] by blast
  obtain H where H: "h_jac cfg eta = Inr H" "is_mat (2 * L) (3 + 2 * L) H"
    using h_jac_entries[OF assms(3), of cfg] by blast
  have R: "is_mat 2 2 (R cfg)" using assms(1) by (simp add: config_ok_def)
  have "is_mat (2 * L) (2 * L) (matmul (matmul H (map (map Fin) P)) (matT H))"
    by (rule is_mat_matmul'[OF _ is_mat_matT'[OF H(2)]]) (use H(2) assms(4) in \<open>simp_all add: is_mat_def\<close>)
  then have S: "is_mat (2 * L) (2 * L)
      (mat_add (matmul (matmul H (map (map Fin) P)) (matT H)) (map (map Fin) (kron_eye L (R cfg))))"
    by (intro is_mat_mat_add is_mat_map_map is_mat_kron_eye R)
  show ?thesis
    using assms(2,5) S by (simp add: update_known_def zp H Let_def associate_def)
qed

lemma is_mat_al_Gz_c: "is_mat 2 2 (al_Gz_c cfg eta z j)"
  by (simp add: al_Gz_c_def al_Gz_def Let_def is_mat_def matmul_def matT_def ncols_def rotmat2d_def col_def)

lemma is_mat_Rall_fold:
  "k \<le> K \<Longrightarrow> is_mat (K * 2) (K * 2)
     (foldl (\<lambda>Rall j. set_block Rall (2 * j) (2 * j) (al_Gz_c cfg eta z j)) (zeros (K * 2) (K * 2)) [0..<k])"
proof (induction k)
  case 0
  show ?case by (simp add: is_mat_zeros)
next
  case (Suc k)
  then have "is_mat (K * 2) (K * 2)
     (foldl (\<lambda>Rall j. set_block Rall (2 * j) (2 * j) (al_Gz_c cfg eta z j)) (zeros (K * 2) (K * 2)) [0..<k])"
    by simp
  then show ?case
    using Suc.prems by (simp add: is_mat_set_block[OF _ is_mat_al_Gz_c])
qed

lemma is_mat_al_Rall: "is_mat (length z div 2 * 2) (length z div 2 * 2) (al_Rall cfg eta z)"
  by (simp add: al_Rall_def Let_def is_mat_Rall_fold)

lemma length_al_lmnew: "length (al_lmnew cfg eta z j) = 2"
  by (simp add: al_lmnew_def Let_def rotmat2d_def)

lemma is_mat_al_Gx: "is_mat 2 3 (al_Gx cfg eta z j)"
  by (simp add: al_Gx_def Let_def is_mat_def)

lemma is_mat_concat_upt:
  assumes "\<And>i. i < n \<Longrightarrow> is_mat r c (g i)"
  shows "is_mat (n * r) c (concat (map g [0..<n]))"
proof -
  have "length (concat (map g [0..<n])) = n * r"
    using assms by (intro length_concat_upt) (simp add: is_mat_def)
  moreover have "length row = c" if "row \<in> set (concat (map g [0..<n]))" for row
    using that assms by (auto simp: is_mat_def list_all_iff)
  ultimately show ?thesis by (simp add: is_mat_def list_all_iff)
qed

lemma is_mat_0: "is_mat 0 c A \<longleftrightarrow> A = []"
  by (auto simp: is_mat_def)

lemma ncols_Nil [simp]: "ncols [] = 0"
  by (simp add: ncols_def)

lemma matT_Nil [simp]: "matT [] = []"
  by (simp add: matT_def)

lemma matmul_Nil [simp]: "matmul [] B = []"
  by (simp add: matmul_def)

lemma is_mat_block_diag:
  assumes "is_mat n n A" "is_mat m m B" "0 < n"
  shows "is_mat (n + m) (n + m) (block_diag A B)"
proof (cases "m = 0")
  case True
  then show ?thesis using assms by (auto simp: is_mat_def block_diag_def list_all_iff)
next
  case False
  then have "ncols B = m" "ncols A = n" using assms by (simp_all add: ncols_is_mat)
  then show ?thesis using assms by (auto simp: is_mat_def block_diag_def list_all_iff)
qed

lemma nth_block_diag_top:
  assumes "is_mat n n A" "i < n" "j < n"
  shows "block_diag A B ! i ! j = A ! i ! j"
  using assms by (simp add: block_diag_def nth_append is_mat_iff)

lemma nth_block_diag_bottom:
  assumes "is_mat n n A" "is_mat m m B" "0 < n" "i < m" "j < m"
  shows "block_diag A B ! (n + i) ! (n + j) = B ! i ! j"
proof -
  have "ncols A = n" using assms by (simp add: ncols_is_mat)
  then show ?thesis using assms by (simp add: block_diag_def nth_append is_mat_iff)
qed

lemma slice2_eqI:
  assumes "is_mat p q B" "r0 + p \<le> length A" "\<And>i. i < p \<Longrightarrow> c0 + q \<le> length (A ! (r0 + i))"
    "\<And>i j. i < p \<Longrightarrow> j < q \<Longrightarrow> A ! (r0 + i) ! (c0 + j) = B ! i ! j"
  shows "slice2 A r0 (r0 + p) c0 (c0 + q) = B"
proof (rule nth_equalityI)
  show len: "length (slice2 A r0 (r0 + p) c0 (c0 + q)) = length B"
    using assms(1,2) by (simp add: slice2_def is_mat_def)
  fix i assume "i < length (slice2 A r0 (r0 + p) c0 (c0 + q))"
  then have i: "i < p" using len assms(1) by (simp add: is_mat_def)
  have row: "slice2 A r0 (r0 + p) c0 (c0 + q) ! i = take q (drop c0 (A ! (r0 + i)))"
    using i assms(2) by (simp add: slice2_def)
  show "slice2 A r0 (r0 + p) c0 (c0 + q) ! i = B ! i"
  proof (rule nth_equalityI)
    show "length (slice2 A r0 (r0 + p) c0 (c0 + q) ! i) = length (B ! i)"
      using assms(3)[OF i] is_mat_nth[OF assms(1) i] by (simp add: row)
    fix j assume "j < length (slice2 A r0 (r0 + p) c0 (c0 + q) ! i)"
    then have j: "j < q" by (simp add: row)
    show "slice2 A r0 (r0 + p) c0 (c0 + q) ! i ! j = B ! i ! j"
      using assms(4)[OF i j] assms(3)[OF i] j by (simp add: row)
  qed
qed

lemma is_mat_al_Gx_all: "is_mat (length z div 2 * 2) 3 (al_Gx_all cfg eta z)"
  unfolding al_Gx_all_def by (rule is_mat_concat_upt) (rule is_mat_al_Gx)

lemma length_al_lmnew_all: "length (al_lmnew_all cfg eta z) = length z div 2 * 2"
  unfolding al_lmnew_all_def by (rule length_concat_upt) (rule length_al_lmnew)

lemma ncols_matT:
  assumes "is_mat p q G" "0 < q"
  shows "ncols (matT G) = p"
proof (cases "p = 0")
  case True
  then show ?thesis using assms by (simp add: is_mat_0)
next
  case False
  then have "ncols G = q" using assms by (simp add: ncols_is_mat)
  then have "matT G = col G 0 # map (col G) [1..<q]"
    using assms(2) by (simp add: matT_def upt_conv_Cons)
  then show ?thesis using assms(1) by (simp add: ncols_def col_def is_mat_def)
qed

lemma is_mat_matmul_matT:
  assumes "is_mat p q G" "0 < q" "length A = r"
  shows "is_mat r p (matmul A (matT G))"
  using is_mat_matmul[of A "matT G"] ncols_matT[OF assms(1,2)] assms(3) by simp

lemma is_mat_al_block2:
  "is_mat (length z div 2 * 2) (length z div 2 * 2) (al_block2 cfg eta P z)"
  unfolding al_block2_def Let_def
  by (intro is_mat_mat_add is_mat_al_Rall is_mat_matmul_matT[OF is_mat_al_Gx_all])
     (simp_all add: is_mat_al_Gx_all[unfolded is_mat_def])

lemma al_Padded_props:
  fixes z :: vec
  assumes P: "is_mat n n P" and n: "0 < n"
  defines "k2 \<equiv> length z div 2 * 2"
  shows "is_mat (n + k2) (n + k2) (al_Padded cfg eta P z)"
    and "\<And>i j. i < n \<Longrightarrow> j < n \<Longrightarrow> al_Padded cfg eta P z ! i ! j = P ! i ! j"
    and "\<And>i j. i < k2 \<Longrightarrow> j < k2 \<Longrightarrow>
           al_Padded cfg eta P z ! (n + i) ! (n + j) = al_block2 cfg eta P z ! i ! j"
    and "\<And>i j. i < n \<Longrightarrow> j < k2 \<Longrightarrow>
           al_Padded cfg eta P z ! i ! (n + j)
             = matmul (map (take 3) P) (matT (al_Gx_all cfg eta z)) ! i ! j"
    and "\<And>i j. i < k2 \<Longrightarrow> j < n \<Longrightarrow>
           al_Padded cfg eta P z ! (n + i) ! j = al_Padded cfg eta P z ! j ! (n + i)"
proof -
  define Gx where "Gx = al_Gx_all cfg eta z"
  define B where "B = al_block2 cfg eta P z"
  define P0 where "P0 = block_diag P B"
  define C where "C = matmul (map (take 3) P) (matT Gx)"
  define P1 where "P1 = set_block P0 0 n C"
  define D where "D = matT (map (drop n) (take n P1))"
  have lenP: "length P = n" using P by (simp add: is_mat_def)
  have Pad: "al_Padded cfg eta P z = set_block P1 n 0 D"
    by (simp add: al_Padded_def Let_def lenP Gx_def B_def P0_def C_def P1_def D_def)
  have B: "is_mat k2 k2 B" unfolding B_def k2_def by (rule is_mat_al_block2)
  have P0: "is_mat (n + k2) (n + k2) P0"
    unfolding P0_def by (rule is_mat_block_diag[OF P B n])
  have C: "is_mat n k2 C"
    unfolding C_def Gx_def k2_def
    by (rule is_mat_matmul_matT[OF is_mat_al_Gx_all]) (simp_all add: lenP)
  have P1: "is_mat (n + k2) (n + k2) P1"
    unfolding P1_def by (rule is_mat_set_block[OF P0 C]) simp_all
  have P1nth: "P1 ! i ! j = (if i < n \<and> n \<le> j then C ! i ! (j - n) else P0 ! i ! j)"
    if "i < n + k2" "j < n + k2" for i j
    unfolding P1_def using nth_nth_set_block[OF P0 C _ _ that, of 0 n] that by auto
  have E: "is_mat n k2 (map (drop n) (take n P1))"
    using P1 by (auto simp: is_mat_iff)
  have Enth: "map (drop n) (take n P1) ! i ! j = P1 ! i ! (n + j)" if "i < n" "j < k2" for i j
    using that P1 by (auto simp: is_mat_iff)
  have D: "is_mat k2 n D"
  proof (cases "k2 = 0")
    case True
    then have "ncols (map (drop n) (take n P1)) = 0"
      using E n by (simp add: ncols_is_mat)
    then show ?thesis using True by (simp add: D_def matT_def is_mat_def)
  next
    case False
    then show ?thesis unfolding D_def using is_mat_matT'[OF E n] by simp
  qed
  have Dnth: "D ! i ! j = P1 ! j ! (n + i)" if "i < k2" "j < n" for i j
  proof -
    have "ncols (map (drop n) (take n P1)) = k2" using E n by (simp add: ncols_is_mat)
    then have "D ! i ! j = map (drop n) (take n P1) ! j ! i"
      using that E by (simp add: D_def matT_def col_def is_mat_def)
    then show ?thesis using Enth[OF that(2,1)] by simp
  qed
  show Pd: "is_mat (n + k2) (n + k2) (al_Padded cfg eta P z)"
    unfolding Pad by (rule is_mat_set_block[OF P1 D]) simp_all
  have Padnth: "al_Padded cfg eta P z ! i ! j = (if n \<le> i \<and> j < n then D ! (i - n) ! j else P1 ! i ! j)"
    if "i < n + k2" "j < n + k2" for i j
    unfolding Pad using nth_nth_set_block[OF P1 D _ _ that, of n 0] that by auto
  show "al_Padded cfg eta P z ! i ! j = P ! i ! j" if "i < n" "j < n" for i j
    using that Padnth[of i j] P1nth[of i j] nth_block_diag_top[OF P that, of B]
    by (simp add: P0_def)
  show "al_Padded cfg eta P z ! (n + i) ! (n + j) = al_block2 cfg eta P z ! i ! j"
    if "i < k2" "j < k2" for i j
    using that Padnth[of "n + i" "n + j"] P1nth[of "n + i" "n + j"]
      nth_block_diag_bottom[OF P B n that]
    by (simp add: P0_def B_def)
  show top: "al_Padded cfg eta P z ! i ! (n + j)
             = matmul (map (take 3) P) (matT (al_Gx_all cfg eta z)) ! i ! j"
    if "i < n" "j < k2" for i j
    using that Padnth[of i "n + j"] P1nth[of i "n + j"] by (simp add: C_def Gx_def)
  show "al_Padded cfg eta P z ! (n + i) ! j = al_Padded cfg eta P z ! j ! (n + i)"
    if "i < k2" "j < n" for i j
    using that Padnth[of "n + i" j] Dnth[OF that] Padnth[of j "n + i"] by simp
qed

lemma dot_scale: "dot v (map (\<lambda>a. l * a) v) = l * dot (v::vec) v"
  by (induction v) (simp_all add: algebra_simps)

lemma dot_self_nonneg: "0 \<le> dot (v::vec) v"
  by (induction v) simp_all

lemma dot_self_pos: "\<exists>a \<in> set v. a \<noteq> 0 \<Longrightarrow> 0 < dot (v::vec) v"
proof (induction v)
  case Nil
  then show ?case by simp
next
  case (Cons x v)
  show ?case
  proof (cases "x = 0")
    case True
    then show ?thesis using Cons by simp
  next
    case False
    then have "0 < x * x" using not_real_square_gt_zero[of x] by blast
    then show ?thesis using dot_self_nonneg[of v] by simp
  qed
qed

lemma psd_imp_eigvals_ge0: "psd A \<Longrightarrow> eigvals_ge0 A"
  unfolding eigvals_ge0_def is_eigval_def
proof (intro allI impI)
  fix l assume A: "psd A"
    and "\<exists>v. length v = length A \<and> (\<exists>a\<in>set v. a \<noteq> 0) \<and> matvec A v = map ((*) l) v"
  then obtain v where v: "length v = length A" "\<exists>a\<in>set v. a \<noteq> 0" "matvec A v = map ((*) l) v"
    by blast
  have "0 \<le> quad A v" using A v(1) by (simp add: psd_def)
  then have "0 \<le> l * dot v v" by (simp add: quad_def v(3) dot_scale)
  then show "0 \<le> l" using dot_self_pos[OF v(2)] by (simp add: zero_le_mult_iff)
qed

lemma pd_imp_eigvals_gt0: "pd A \<Longrightarrow> eigvals_gt0 A"
  unfolding eigvals_gt0_def is_eigval_def
proof (intro allI impI)
  fix l assume A: "pd A"
    and "\<exists>v. length v = length A \<and> (\<exists>a\<in>set v. a \<noteq> 0) \<and> matvec A v = map ((*) l) v"
  then obtain v where v: "length v = length A" "\<exists>a\<in>set v. a \<noteq> 0" "matvec A v = map ((*) l) v"
    by blast
  have "0 < quad A v" using A v(1,2) by (simp add: pd_def)
  then have "0 < l * dot v v" by (simp add: quad_def v(3) dot_scale)
  then show "0 < l" using dot_self_pos[OF v(2)] by (simp add: zero_less_mult_iff)
qed

lemma vec5: "length v = 5 \<Longrightarrow> \<exists>a b c d e. v = [a, b, c, d, e]"
  by (auto simp: eval_nat_numeral length_Suc_conv)

lemma vec3: "length v = 3 \<Longrightarrow> \<exists>a b c. v = [a, b, c]"
  by (auto simp: eval_nat_numeral length_Suc_conv)

lemma upt_0_1: "[0..<1] = [0]" by simp
lemma upt_0_2: "[0..<2] = [0, 1]" by (simp add: upt_rec)
lemma upt_0_3: "[0..<3] = [0, 1, 2]" by (simp add: upt_rec)

lemma ex_Gx: "al_Gx_all ex_cfg [0, 0, 0] [2, 0] = [[1, 0, 0], [0, 1, 2]]"
  by (simp add: al_Gx_all_def al_Gx_def ex_cfg_def Let_def rotmat2d_def vec_add_def matvec_def)

lemma ex_Gz_c: "al_Gz_c ex_cfg [0, 0, 0] [2, 0] 0 = [[1, 0], [0, 4]]"
  by (simp add: al_Gz_c_def al_Gz_def ex_cfg_def Let_def rotmat2d_def matmul_def matT_def col_def
      ncols_def upt_0_2)

lemma ex_Rall: "al_Rall ex_cfg [0, 0, 0] [2, 0] = [[1, 0], [0, 4]]"
  by (simp add: al_Rall_def Let_def ex_Gz_c set_block_def set_row_part_def zeros_def upt_0_2)

lemma ex_block2:
  "al_block2 ex_cfg [0, 0, 0] [[1, 0, 0], [0, 1, 0], [0, 0, 1]] [2, 0] = [[2, 0], [0, 9]]"
  by (simp add: al_block2_def ex_Gx ex_Rall Let_def slice2_def matmul_def matT_def col_def
      ncols_def mat_add_def vec_add_def upt_0_2 upt_0_3)

lemma upt_0_5: "[0..<5] = [0, 1, 2, 3, 4]" by (simp add: upt_rec)

lemma al_Padded_example:
  "al_Padded ex_cfg [0, 0, 0] [[1, 0, 0], [0, 1, 0], [0, 0, 1]] [2, 0] = ex_Padded"
proof -
  have b: "block_diag [[1, 0, 0], [0, 1, 0], [0, 0, 1]] [[2, 0], [0, 9]]
      = [[1, 0, 0, 0, 0], [0, 1, 0, 0, 0], [0, 0, 1, 0, 0], [0, 0, 0, 2, 0], [0, 0, 0, 0, 9::real]]"
    by (simp add: block_diag_def ncols_def)
  have c: "matmul (map (take 3) [[1, 0, 0], [0, 1, 0], [0, 0, 1]]) (matT [[1, 0, 0], [0, 1, 2]])
      = [[1, 0], [0, 1], [0, 2::real]]"
    by (simp add: matmul_def matT_def col_def ncols_def upt_0_2 upt_0_3)
  have p1: "set_block [[1, 0, 0, 0, 0], [0, 1, 0, 0, 0], [0, 0, 1, 0, 0], [0, 0, 0, 2, 0], [0, 0, 0, 0, 9::real]]
        0 3 [[1, 0], [0, 1], [0, 2]]
      = [[1, 0, 0, 1, 0], [0, 1, 0, 0, 1], [0, 0, 1, 0, 2], [0, 0, 0, 2, 0], [0, 0, 0, 0, 9]]"
    by (simp add: set_block_def set_row_part_def upt_0_5)
  have d: "matT (map (drop 3) (take 3 [[1, 0, 0, 1, 0], [0, 1, 0, 0, 1], [0, 0, 1, 0, 2], [0, 0, 0, 2, 0], [0, 0, 0, 0, 9::real]]))
      = [[1, 0, 0], [0, 1, 2]]"
    by (simp add: matT_def col_def ncols_def upt_0_2)
  have p2: "set_block [[1, 0, 0, 1, 0], [0, 1, 0, 0, 1], [0, 0, 1, 0, 2], [0, 0, 0, 2, 0], [0, 0, 0, 0, 9::real]]
        3 0 [[1, 0, 0], [0, 1, 2]] = ex_Padded"
    by (simp add: set_block_def set_row_part_def upt_0_5 ex_Padded_def)
  have n: "length [[1, 0, 0], [0, 1, 0], [0, 0, 1::real]] = 3" by simp
  show ?thesis
    unfolding al_Padded_def Let_def ex_Gx ex_block2 n b c p1 d p2 by (rule refl)
qed

lemma psd_ex_Padded: "psd ex_Padded"
  unfolding psd_def
proof (intro allI impI)
  fix v :: vec assume "length v = length ex_Padded"
  then have "length v = 5" by (simp add: ex_Padded_def)
  then obtain a b c d e where v: "v = [a, b, c, d, e]" using vec5 by blast
  have "quad ex_Padded v = (a + d)\<^sup>2 + (b + e)\<^sup>2 + (c + 2 * e)\<^sup>2 + d\<^sup>2 + 4 * e\<^sup>2"
    by (simp add: quad_def matvec_def ex_Padded_def v power2_eq_square algebra_simps)
  then show "0 \<le> quad ex_Padded v" by simp
qed

lemma allclose_refl: "allclose A A"
  by (simp add: allclose_def list_all2_conv_all_nth)

lemma add_landmarks_example:
  "add_landmarks ex_cfg [0, 0, 0] [[1, 0, 0], [0, 1, 0], [0, 0, 1]] [2, 0]
     = Inr ([0, 0, 0, 2, 0], ex_Padded)"
proof -
  have T: "matT ex_Padded = ex_Padded"
    by (simp add: ex_Padded_def matT_def col_def ncols_def upt_0_5)
  have lm: "al_lmnew_all ex_cfg [0, 0, 0] [2, 0] = [2, 0]"
    by (simp add: al_lmnew_all_def al_lmnew_def ex_cfg_def Let_def rotmat2d_def vec_add_def
        matvec_def)
  have m: "is_mat (Suc (Suc (Suc (Suc (Suc 0))))) (Suc (Suc (Suc (Suc (Suc 0))))) ex_Padded"
    by (simp add: ex_Padded_def is_mat_def)
  have m3: "is_mat (Suc (Suc (Suc 0))) (Suc (Suc (Suc 0))) [[1, 0, 0], [0, 1, 0], [0, 0, 1::real]]"
    by (simp add: is_mat_def)
  show ?thesis
    using m m3
    by (simp add: add_landmarks_def Let_def lm al_Padded_example T allclose_refl
        psd_imp_eigvals_ge0[OF psd_ex_Padded])
qed

lemma add_landmarks_InrD:
  assumes "add_landmarks cfg eta P z = Inr (eta', P')"
  shows "length z mod 2 = 0" "3 \<le> length eta" "length P = length eta"
    "is_mat (length eta) (length eta) P"
    "eta' = eta @ al_lmnew_all cfg eta z" "P' = al_Padded cfg eta P z"
    "allclose P' (matT P')" "eigvals_ge0 P'"
proof -
  define n where "n = length P"
  define k2 where "k2 = length z div 2 * 2"
  from assms show ev: "length z mod 2 = 0" and "3 \<le> length eta"
    and eta': "eta' = eta @ al_lmnew_all cfg eta z" and P': "P' = al_Padded cfg eta P z"
    and "allclose P' (matT P')" "eigvals_ge0 P'"
    by (auto simp: add_landmarks_def Let_def split: if_splits)
  from assms have n3: "3 \<le> n" and P: "is_mat n n P"
    and sh: "is_mat (length eta') (length eta') P'"
    by (auto simp: add_landmarks_def Let_def n_def split: if_splits)
  have n0: "0 < n" using n3 by simp
  note pp = al_Padded_props[OF P n0, where z = z and cfg = cfg and eta = eta, folded k2_def P']
  have len': "length eta' = length eta + k2"
    by (simp add: eta' length_al_lmnew_all k2_def)
  have "n + k2 = length eta'" using pp(1) sh by (simp add: is_mat_def)
  then have n: "n = length eta" using len' by simp
  show "length P = length eta" using n by (simp add: n_def)
  show "is_mat (length eta) (length eta) P" using P n by simp
qed

lemma take3_zero:
  assumes "take 3 eta = [0, 0, 0::real]"
  shows "eta ! 0 = 0" "eta ! Suc 0 = 0" "eta ! 2 = 0"
proof -
  have "take 3 eta ! i = eta ! i" if "i < 3" for i using that by simp
  from this[of 0] this[of "Suc 0"] this[of 2]
  show "eta ! 0 = 0" "eta ! Suc 0 = 0" "eta ! 2 = 0" by (simp_all add: assms)
qed

lemma set_block_whole:
  assumes "is_mat r c A" "is_mat r c B"
  shows "set_block A 0 0 B = B"
proof (rule nth_equalityI)
  show "length (set_block A 0 0 B) = length B" using assms by (simp add: is_mat_def)
  fix i assume "i < length (set_block A 0 0 B)"
  then have i: "i < r" using assms by (simp add: is_mat_def)
  then show "set_block A 0 0 B ! i = B ! i"
    using assms by (simp add: nth_set_block is_mat_iff set_row_part_def)
qed

lemma single_measurement_blocks:
  assumes "sensor_offset cfg = [0, 0]" "take 3 eta = [0, 0, 0]"
  shows "al_lmnew_all cfg eta [2, 0] = [2, 0]"
    and "al_Gx cfg eta [2, 0] 0 = [[1, 0, 0], [0, 1, 2]]"
    and "al_Gz eta [2, 0] 0 = [[1, 0], [0, 2]]"
    and "al_Gx_all cfg eta [2, 0] = al_Gx cfg eta [2, 0] 0"
    and "al_Rall cfg eta [2, 0] = al_Gz_c cfg eta [2, 0] 0"
proof -
  note e = take3_zero[OF assms(2)]
  show "al_lmnew_all cfg eta [2, 0] = [2, 0]"
    by (simp add: al_lmnew_all_def al_lmnew_def assms(1) e Let_def rotmat2d_def vec_add_def matvec_def)
  show "al_Gx cfg eta [2, 0] 0 = [[1, 0, 0], [0, 1, 2]]"
    by (simp add: al_Gx_def assms(1) e Let_def rotmat2d_def vec_add_def matvec_def)
  show "al_Gz eta [2, 0] 0 = [[1, 0], [0, 2]]"
    by (simp add: al_Gz_def e Let_def rotmat2d_def matmul_def col_def ncols_def upt_0_2)
  show "al_Gx_all cfg eta [2, 0] = al_Gx cfg eta [2, 0] 0"
    by (simp add: al_Gx_all_def)
  have "zeros (Suc 0 * 2) (Suc 0 * 2) = (zeros 2 2 :: mat)" by simp
  then show "al_Rall cfg eta [2, 0] = al_Gz_c cfg eta [2, 0] 0"
    using set_block_whole[OF is_mat_zeros is_mat_al_Gz_c, of cfg eta "[2, 0]" 0]
    by (simp add: al_Rall_def Let_def)
qed

lemma length_ravel: "length (ravel z) = 2 * length z"
  by (induction z) (auto simp: ravel_def)

lemma ravel_snoc: "ravel (zs @ [p]) = ravel zs @ [fst p, snd p]"
  by (simp add: ravel_def case_prod_unfold)

lemma ravel_pairs:
  "concat (map (\<lambda>i. [ravel z ! (2 * i), ravel z ! Suc (2 * i)]) [0..<length z]) = ravel z"
proof (induction z rule: rev_induct)
  case Nil
  show ?case by (simp add: ravel_def)
next
  case (snoc p zs)
  let ?F = "\<lambda>z i. [ravel z ! (2 * i), ravel z ! Suc (2 * i)]"
  have a: "map (?F (zs @ [p])) [0..<length zs] = map (?F zs) [0..<length zs]"
    by (rule map_cong) (simp_all add: ravel_snoc nth_append length_ravel)
  have b: "?F (zs @ [p]) (length zs) = [fst p, snd p]"
    by (simp add: ravel_snoc nth_append length_ravel)
  have "concat (map (?F (zs @ [p])) [0..<length (zs @ [p])])
      = concat (map (?F (zs @ [p])) [0..<length zs]) @ ?F (zs @ [p]) (length zs)"
    by simp
  also have "\<dots> = ravel zs @ [fst p, snd p]"
    by (simp only: a b snoc.IH)
  finally show ?case by (simp only: ravel_snoc)
qed

lemma filter_all_new: "filter (\<lambda>i. replicate m True ! i) [0..<m] = [0..<m]"
  by (rule filter_True) simp

lemma update_empty_map_eq:
  assumes "length eta = 3"
  shows "update cfg JCBB cho_inv eta P z =
     (case (if do_asso cfg \<and> z \<noteq> [] then add_landmarks cfg eta P (ravel z) else Inr (eta, P)) of
        Inl e \<Rightarrow> Inl e
      | Inr (etaupd, Pupd) \<Rightarrow>
          if \<not> allclose Pupd (matT Pupd) then Inl AssertionError
          else if \<not> eigvals_ge0 Pupd then Inl AssertionError
          else Inr (etaupd, Pupd, 1, replicate (length z) (- 1)))"
proof -
  have ex: "list_ex (\<lambda>b. b) (replicate (length z) True) \<longleftrightarrow> z \<noteq> []"
    by (cases z) (simp_all add: list_ex_iff)
  show ?thesis
    using assms
    by (simp add: update_def Let_def ex filter_all_new ravel_pairs)
qed

lemma matT_ex_Padded: "matT ex_Padded = ex_Padded"
  by (simp add: ex_Padded_def matT_def col_def ncols_def upt_0_5)

lemma take3: "3 \<le> length xs \<Longrightarrow> take 3 xs = [xs ! 0, xs ! 1, xs ! 2]"
  by (cases xs; cases "tl xs"; cases "tl (tl xs)") (auto simp: numeral_3_eq_3 numeral_2_eq_2)

lemma col_matT:
  assumes "is_mat r c A" "j < r"
  shows "col (matT A) j = A ! j"
proof -
  have nc: "ncols A = c" using assms by (intro ncols_is_mat) auto
  have "col (matT A) j = map (\<lambda>k. A ! j ! k) [0..<c]"
    using assms by (simp add: col_def matT_def nc is_mat_def)
  also have "\<dots> = A ! j"
    using is_mat_nth[OF assms] by (metis map_nth)
  finally show ?thesis .
qed

lemma nth_matmul:
  "i < length A \<Longrightarrow> j < ncols B \<Longrightarrow> matmul A B ! i ! j = dot (A ! i) (col B j)"
  by (simp add: matmul_def)

lemma predict_P_props:
  fixes cfg :: config
  assumes P: "is_mat n n P" and n: "3 \<le> n" and F: "is_mat 3 3 Fx'" and U: "is_mat 3 3 Fu'"
  defines "A \<equiv> mat_add (matmul (matmul Fx' (slice2 P 0 3 0 3)) (matT Fx'))
                          (matmul (matmul Fu' (Q cfg)) (matT Fu'))"
  shows "is_mat n n (predict_P cfg P Fx' Fu')"
    and "\<And>i j. i < 3 \<Longrightarrow> j < 3 \<Longrightarrow> predict_P cfg P Fx' Fu' ! i ! j = A ! i ! j"
    and "\<And>i j. i < 3 \<Longrightarrow> 3 \<le> j \<Longrightarrow> j < n \<Longrightarrow>
           predict_P cfg P Fx' Fu' ! i ! j = dot (Fx' ! i) [P ! 0 ! j, P ! 1 ! j, P ! 2 ! j]"
    and "\<And>i j. 3 \<le> i \<Longrightarrow> i < n \<Longrightarrow> j < 3 \<Longrightarrow>
           predict_P cfg P Fx' Fu' ! i ! j = dot [P ! i ! 0, P ! i ! 1, P ! i ! 2] (Fx' ! j)"
    and "\<And>i j. 3 \<le> i \<Longrightarrow> i < n \<Longrightarrow> 3 \<le> j \<Longrightarrow> j < n \<Longrightarrow>
           predict_P cfg P Fx' Fu' ! i ! j = P ! i ! j"
proof -
  define P1 where "P1 = set_block P 0 0 A"
  define M where "M = map (drop 3) (take 3 P1)"
  define B where "B = matmul Fx' M"
  define P2 where "P2 = set_block P1 0 3 B"
  define N where "N = map (take 3) (drop 3 P2)"
  define C where "C = matmul N (matT Fx')"
  have PP: "predict_P cfg P Fx' Fu' = set_block P2 3 0 C"
    by (simp add: predict_P_def Let_def A_def P1_def M_def B_def P2_def N_def C_def)
  have lF: "length Fx' = 3" "length Fu' = 3" using F U by (simp_all add: is_mat_def)
  have A: "is_mat 3 3 A"
    unfolding A_def
    by (intro is_mat_mat_add is_mat_matmul_matT[OF F] is_mat_matmul_matT[OF U]) (simp_all add: lF)
  have P1: "is_mat n n P1" unfolding P1_def by (rule is_mat_set_block[OF P A]) (use n in simp_all)
  have P1nth: "P1 ! i ! j = (if i < 3 \<and> j < 3 then A ! i ! j else P ! i ! j)" if "i < n" "j < n" for i j
    unfolding P1_def using nth_nth_set_block[OF P A _ _ that, of 0 0] n by auto
  have M: "is_mat 3 (n - 3) M"
    unfolding M_def using P1 n by (auto simp: is_mat_iff)
  have ncM: "ncols M = n - 3" using M by (intro ncols_is_mat) auto
  have B: "is_mat 3 (n - 3) B"
    unfolding B_def using is_mat_matmul[of Fx' M] by (simp add: lF ncM)
  have colM: "col M j = [P ! 0 ! (3 + j), P ! 1 ! (3 + j), P ! 2 ! (3 + j)]" if "j < n - 3" for j
  proof -
    have t: "take 3 P1 = [P1 ! 0, P1 ! 1, P1 ! 2]" using P1 n by (intro take3) (simp add: is_mat_def)
    have "length (P1 ! 0) = n" "length (P1 ! 1) = n" "length (P1 ! 2) = n"
      using P1 n by (auto simp: is_mat_iff)
    then show ?thesis
      using that n P1nth[of 0 "3 + j"] P1nth[of 1 "3 + j"] P1nth[of 2 "3 + j"]
      by (simp add: M_def col_def t)
  qed
  have Bnth: "B ! i ! j = dot (Fx' ! i) [P ! 0 ! (3 + j), P ! 1 ! (3 + j), P ! 2 ! (3 + j)]"
    if "i < 3" "j < n - 3" for i j
    unfolding B_def using that by (simp add: nth_matmul lF ncM colM)
  have P2: "is_mat n n P2" unfolding P2_def by (rule is_mat_set_block[OF P1 B]) (use n in simp_all)
  have P2nth: "P2 ! i ! j = (if i < 3 \<and> 3 \<le> j then B ! i ! (j - 3) else P1 ! i ! j)"
    if "i < n" "j < n" for i j
    unfolding P2_def using nth_nth_set_block[OF P1 B _ _ that, of 0 3] n that by auto
  have N: "is_mat (n - 3) 3 N"
    unfolding N_def using P2 n by (auto simp: is_mat_iff)
  have Nnth: "N ! i = [P ! (3 + i) ! 0, P ! (3 + i) ! 1, P ! (3 + i) ! 2]" if "i < n - 3" for i
  proof -
    have "length (P2 ! (3 + i)) = n" using P2 that by (auto simp: is_mat_iff)
    then have "take 3 (P2 ! (3 + i)) = [P2 ! (3 + i) ! 0, P2 ! (3 + i) ! 1, P2 ! (3 + i) ! 2]"
      using n by (intro take3) simp
    moreover have "N ! i = take 3 (P2 ! (3 + i))"
      using that P2 by (simp add: N_def is_mat_def)
    ultimately show ?thesis
      using that n P2nth[of "3 + i" 0] P2nth[of "3 + i" 1] P2nth[of "3 + i" 2]
        P1nth[of "3 + i" 0] P1nth[of "3 + i" 1] P1nth[of "3 + i" 2]
      by simp
  qed
  have ncT: "ncols (matT Fx') = 3" using ncols_matT[OF F] by simp
  have C: "is_mat (n - 3) 3 C"
    unfolding C_def using is_mat_matmul[of N "matT Fx'"] N by (simp add: ncT is_mat_def)
  have Cnth: "C ! i ! j = dot [P ! (3 + i) ! 0, P ! (3 + i) ! 1, P ! (3 + i) ! 2] (Fx' ! j)"
    if "i < n - 3" "j < 3" for i j
    unfolding C_def using that N by (simp add: nth_matmul ncT Nnth col_matT[OF F] is_mat_def)
  show "is_mat n n (predict_P cfg P Fx' Fu')"
    unfolding PP by (rule is_mat_set_block[OF P2 C]) (use n in simp_all)
  have P3nth: "predict_P cfg P Fx' Fu' ! i ! j = (if 3 \<le> i \<and> j < 3 then C ! (i - 3) ! j else P2 ! i ! j)"
    if "i < n" "j < n" for i j
    unfolding PP using nth_nth_set_block[OF P2 C _ _ that, of 3 0] n that by auto
  show "predict_P cfg P Fx' Fu' ! i ! j = A ! i ! j" if "i < 3" "j < 3" for i j
    using that n P3nth[of i j] P2nth[of i j] P1nth[of i j] by simp
  show "predict_P cfg P Fx' Fu' ! i ! j = dot (Fx' ! i) [P ! 0 ! j, P ! 1 ! j, P ! 2 ! j]"
    if "i < 3" "3 \<le> j" "j < n" for i j
    using that n P3nth[of i j] P2nth[of i j] Bnth[of i "j - 3"] by simp
  show "predict_P cfg P Fx' Fu' ! i ! j = dot [P ! i ! 0, P ! i ! 1, P ! i ! 2] (Fx' ! j)"
    if "3 \<le> i" "i < n" "j < 3" for i j
    using that n P3nth[of i j] Cnth[of "i - 3" j] by simp
  show "predict_P cfg P Fx' Fu' ! i ! j = P ! i ! j" if "3 \<le> i" "i < n" "3 \<le> j" "j < n" for i j
    using that P3nth[of i j] P2nth[of i j] P1nth[of i j] by simp
qed

lemma mat33_cases:
  assumes "is_mat 3 3 G"
  obtains a b c d e f' g h' i where "G = [[a, b, c], [d, e, f'], [g, h', i]]"
proof -
  obtain r0 r1 r2 where G: "G = [r0, r1, r2]"
    using vec3[of G] assms by (auto simp: is_mat_def)
  have l: "length r0 = 3" "length r1 = 3" "length r2 = 3"
    using assms by (simp_all add: G is_mat_def)
  obtain a b c where r0: "r0 = [a, b, c]" using vec3[OF l(1)] by blast
  obtain d e f' where r1: "r1 = [d, e, f']" using vec3[OF l(2)] by blast
  obtain g h' i where r2: "r2 = [g, h', i]" using vec3[OF l(3)] by blast
  show ?thesis by (rule that[of a b c d e f' g h' i]) (simp add: G r0 r1 r2)
qed

lemma quad_congruence33:
  "quad (matmul (matmul [[g00, g01, g02], [g10, g11, g12], [g20, g21, g22]]
                        [[s00, s01, s02], [s10, s11, s12], [s20, s21, s22]])
                (matT [[g00, g01, g02], [g10, g11, g12], [g20, g21, g22]])) [x, y, z]
   = quad [[s00, s01, s02], [s10, s11, s12], [s20, s21, s22]]
       (matvec (matT [[g00, g01, g02], [g10, g11, g12], [g20, g21, g22]]) [x, y, z])"
  by (simp add: quad_def matvec_def matmul_def matT_def col_def ncols_def upt_0_3
      algebra_simps)

lemma sym_congruence33:
  "matT (matmul (matmul [[g00, g01, g02], [g10, g11, g12], [g20, g21, g22]]
                        [[s00, s01, s02], [s01, s11, s12], [s02, s12, s22]])
                (matT [[g00, g01, g02], [g10, g11, g12], [g20, g21, g22 :: real]]))
   = matmul (matmul [[g00, g01, g02], [g10, g11, g12], [g20, g21, g22]]
                        [[s00, s01, s02], [s01, s11, s12], [s02, s12, s22]])
                (matT [[g00, g01, g02], [g10, g11, g12], [g20, g21, g22]])"
  by (simp add: matmul_def matT_def col_def ncols_def upt_0_3 algebra_simps)

lemma matT_nth:
  assumes "is_mat r c M" "i < r" "j < c"
  shows "matT M ! j ! i = M ! i ! j"
proof -
  have "ncols M = c" using assms by (intro ncols_is_mat) auto
  then show ?thesis using assms by (simp add: matT_def col_def is_mat_def)
qed

lemma matT_eq_iff:
  assumes "is_mat n n M" "0 < n"
  shows "matT M = M \<longleftrightarrow> (\<forall>i<n. \<forall>j<n. M ! i ! j = M ! j ! i)"
proof
  assume "matT M = M"
  then show "\<forall>i<n. \<forall>j<n. M ! i ! j = M ! j ! i"
    using matT_nth[OF assms(1)] by metis
next
  assume s: "\<forall>i<n. \<forall>j<n. M ! i ! j = M ! j ! i"
  have T: "is_mat n n (matT M)" using is_mat_matT'[OF assms] .
  show "matT M = M"
  proof (rule nth_equalityI)
    show "length (matT M) = length M" using T assms(1) by (simp add: is_mat_def)
    fix i assume "i < length (matT M)"
    then have i: "i < n" using T by (simp add: is_mat_def)
    show "matT M ! i = M ! i"
    proof (rule nth_equalityI)
      show "length (matT M ! i) = length (M ! i)"
        using is_mat_nth[OF T i] is_mat_nth[OF assms(1) i] by simp
      fix j assume "j < length (matT M ! i)"
      then have j: "j < n" using is_mat_nth[OF T i] by simp
      show "matT M ! i ! j = M ! i ! j"
        using matT_nth[OF assms(1) j i] s i j by simp
    qed
  qed
qed

lemma dot_commute: "dot xs ys = dot ys (xs :: vec)"
proof (induction xs arbitrary: ys)
  case Nil
  show ?case by simp
next
  case (Cons x xs)
  show ?case by (cases ys) (simp_all add: Cons.IH)
qed

lemma nth_mat_add:
  "i < length A \<Longrightarrow> i < length B \<Longrightarrow> j < length (A ! i) \<Longrightarrow> j < length (B ! i) \<Longrightarrow>
   mat_add A B ! i ! j = A ! i ! j + B ! i ! j"
  by (simp add: mat_add_def vec_add_def)

lemma slice2_33:
  assumes "is_mat n n P" "3 \<le> n"
  shows "slice2 P 0 3 0 3 = [[P ! 0 ! 0, P ! 0 ! 1, P ! 0 ! 2], [P ! 1 ! 0, P ! 1 ! 1, P ! 1 ! 2],
              [P ! 2 ! 0, P ! 2 ! 1, P ! 2 ! 2]]"
proof -
  have "take 3 P = [P ! 0, P ! 1, P ! 2]" using assms by (intro take3) (simp add: is_mat_def)
  moreover have "take 3 (P ! i) = [P ! i ! 0, P ! i ! 1, P ! i ! 2]" if "i < 3" for i
    using assms is_mat_nth[OF assms(1), of i] that by (intro take3) simp
  ultimately show ?thesis by (simp add: slice2_def)
qed

lemma sym_congruence:
  fixes G S :: mat
  assumes G: "is_mat 3 3 G" and S: "is_mat 3 3 S" and symS: "matT S = S"
  shows "matT (matmul (matmul G S) (matT G)) = matmul (matmul G S) (matT G)"
proof -
  obtain g00 g01 g02 g10 g11 g12 g20 g21 g22
    where g: "G = [[g00, g01, g02], [g10, g11, g12], [g20, g21, g22]]"
    by (rule mat33_cases[OF G])
  obtain s00 s01 s02 s10 s11 s12 s20 s21 s22
    where s: "S = [[s00, s01, s02], [s10, s11, s12], [s20, s21, s22]]"
    by (rule mat33_cases[OF S])
  have "S ! 1 ! 0 = S ! 0 ! 1" "S ! 2 ! 0 = S ! 0 ! 2" "S ! 2 ! 1 = S ! 1 ! 2"
    using matT_nth[OF S, of 0 1] matT_nth[OF S, of 0 2] matT_nth[OF S, of 1 2]
    unfolding symS by simp_all
  then have e: "s10 = s01" "s20 = s02" "s21 = s12" unfolding s by simp_all
  show ?thesis unfolding g s e by (rule sym_congruence33)
qed

lemma is_mat_congruence:
  fixes G S :: mat
  assumes "is_mat 3 3 G"
  shows "is_mat 3 3 (matmul (matmul G S) (matT G))"
  using assms by (intro is_mat_matmul_matT[OF assms]) (simp_all add: is_mat_def)

lemma predict_P_sym:
  fixes P :: mat
  assumes P: "is_mat n n P" and n: "3 \<le> n" and symP: "matT P = P"
    and Qm: "is_mat 3 3 (Q cfg)" and symQ: "matT (Q cfg) = Q cfg"
    and F: "is_mat 3 3 Fx'" and U: "is_mat 3 3 Fu'"
  shows "matT (predict_P cfg P Fx' Fu') = predict_P cfg P Fx' Fu'"
proof -
  define X where "X = matmul (matmul Fx' (slice2 P 0 3 0 3)) (matT Fx')"
  define Y where "Y = matmul (matmul Fu' (Q cfg)) (matT Fu')"
  note pp = predict_P_props[OF P n F U, where cfg = cfg, folded X_def Y_def]
  have n0: "0 < n" using n by simp
  have pe: "P ! i ! j = P ! j ! i" if "i < n" "j < n" for i j
    using symP that unfolding matT_eq_iff[OF P n0] by blast
  have S3: "is_mat 3 3 (slice2 P 0 3 0 3)"
    by (simp add: slice2_33[OF P n] is_mat_def)
  have symS3: "matT (slice2 P 0 3 0 3) = slice2 P 0 3 0 3"
    using pe[of 0 1] pe[of 0 2] pe[of 1 2] n
    by (simp add: slice2_33[OF P n] matT_def col_def ncols_def upt_0_3)
  have X: "is_mat 3 3 X" unfolding X_def by (rule is_mat_congruence[OF F])
  have Y: "is_mat 3 3 Y" unfolding Y_def by (rule is_mat_congruence[OF U])
  have symX: "matT X = X" unfolding X_def by (rule sym_congruence[OF F S3 symS3])
  have symY: "matT Y = Y" unfolding Y_def by (rule sym_congruence[OF U Qm symQ])
  have Xe: "X ! i ! j = X ! j ! i" if "i < 3" "j < 3" for i j
    using symX that unfolding matT_eq_iff[OF X, simplified] by blast
  have Ye: "Y ! i ! j = Y ! j ! i" if "i < 3" "j < 3" for i j
    using symY that unfolding matT_eq_iff[OF Y, simplified] by blast
  have Ae: "mat_add X Y ! i ! j = mat_add X Y ! j ! i" if "i < 3" "j < 3" for i j
    using that X Y Xe[OF that] Ye[OF that] by (simp add: nth_mat_add is_mat_iff)
  have "predict_P cfg P Fx' Fu' ! i ! j = predict_P cfg P Fx' Fu' ! j ! i"
    if i: "i < n" and j: "j < n" for i j
  proof (cases "i < 3")
    case i3: True
    show ?thesis
    proof (cases "j < 3")
      case True
      then show ?thesis using pp(2)[OF i3 True] pp(2)[OF True i3] Ae[OF i3 True] by simp
    next
      case False
      then have j3: "3 \<le> j" by simp
      show ?thesis
        using pp(3)[OF i3 j3 j] pp(4)[OF j3 j i3] pe[of 0 j] pe[of 1 j] pe[of 2 j] j n
        by (simp add: dot_commute)
    qed
  next
    case False
    then have i3: "3 \<le> i" by simp
    show ?thesis
    proof (cases "j < 3")
      case True
      show ?thesis
        using pp(3)[OF True i3 i] pp(4)[OF i3 i True] pe[of 0 i] pe[of 1 i] pe[of 2 i] i n
        by (simp add: dot_commute)
    next
      case False
      then have j3: "3 \<le> j" by simp
      show ?thesis using pp(5)[OF i3 i j3 j] pp(5)[OF j3 j i3 i] pe[OF i j] by simp
    qed
  qed
  then show ?thesis unfolding matT_eq_iff[OF pp(1) n0] by blast
qed

lemma is_mat_Fx: "Fx x u = Inr Fx' \<Longrightarrow> is_mat 3 3 Fx'"
  by (auto simp: Fx_def Let_def is_mat_def split: if_splits)

lemma is_mat_Fu: "Fu x u = Inr Fu' \<Longrightarrow> is_mat 3 3 Fu'"
  by (auto simp: Fu_def Let_def is_mat_def split: if_splits)

lemma quad_congruence:
  fixes G S :: mat
  assumes G: "is_mat 3 3 G" and S: "is_mat 3 3 S" and v: "length v = 3"
  shows "quad (matmul (matmul G S) (matT G)) v = quad S (matvec (matT G) v)"
proof -
  obtain g00 g01 g02 g10 g11 g12 g20 g21 g22
    where g: "G = [[g00, g01, g02], [g10, g11, g12], [g20, g21, g22]]"
    by (rule mat33_cases[OF G])
  obtain s00 s01 s02 s10 s11 s12 s20 s21 s22
    where s: "S = [[s00, s01, s02], [s10, s11, s12], [s20, s21, s22]]"
    by (rule mat33_cases[OF S])
  obtain x y z where xyz: "v = [x, y, z]" using vec3[OF v] by blast
  show ?thesis unfolding g s xyz by (rule quad_congruence33)
qed

lemma quad_mat_add:
  fixes X Y :: mat
  assumes X: "is_mat 3 3 X" and Y: "is_mat 3 3 Y" and v: "length v = 3"
  shows "quad (mat_add X Y) v = quad X v + quad Y v"
proof -
  obtain g00 g01 g02 g10 g11 g12 g20 g21 g22
    where g: "X = [[g00, g01, g02], [g10, g11, g12], [g20, g21, g22]]"
    by (rule mat33_cases[OF X])
  obtain s00 s01 s02 s10 s11 s12 s20 s21 s22
    where s: "Y = [[s00, s01, s02], [s10, s11, s12], [s20, s21, s22]]"
    by (rule mat33_cases[OF Y])
  obtain x y z where xyz: "v = [x, y, z]" using vec3[OF v] by blast
  show ?thesis unfolding g s xyz
    by (simp add: quad_def matvec_def mat_add_def vec_add_def algebra_simps)
qed

lemma mat_eqI:
  assumes "is_mat r c A" "is_mat r c B" "\<And>i j. i < r \<Longrightarrow> j < c \<Longrightarrow> A ! i ! j = B ! i ! j"
  shows "A = B"
proof (rule nth_equalityI)
  show "length A = length B" using assms(1,2) by (simp add: is_mat_def)
  fix i assume "i < length A"
  then have i: "i < r" using assms(1) by (simp add: is_mat_def)
  show "A ! i = B ! i"
    using is_mat_nth[OF assms(1) i] is_mat_nth[OF assms(2) i] assms(3)[OF i]
    by (intro nth_equalityI) simp_all
qed

lemma Fu_transpose_nonzero:
  assumes "Fu x u = Inr Fu'" "length v = 3" "\<exists>a \<in> set v. a \<noteq> 0"
  shows "\<exists>a \<in> set (matvec (matT Fu') v). a \<noteq> 0"
proof -
  obtain a b c where v: "v = [a, b, c]" using vec3[OF assms(2)] by blast
  define cs where "cs = cos (x ! 2)"
  define sn where "sn = sin (x ! 2)"
  have one: "cs * cs + sn * sn = 1"
    unfolding cs_def sn_def using sin_cos_squared_add2[of "x ! 2"] by (simp add: power2_eq_square)
  have Fu': "Fu' = [[cs, - 1 * sn, 0], [sn, cs, 0], [0, 0, 1]]"
    using assms(1) by (auto simp: Fu_def Let_def cs_def sn_def split: if_splits)
  have mv: "matvec (matT Fu') v = [cs * a + sn * b, - sn * a + cs * b, c]"
    by (simp add: Fu' v matvec_def matT_def col_def ncols_def upt_0_3)
  show ?thesis
  proof (rule ccontr)
    assume "\<not> (\<exists>a \<in> set (matvec (matT Fu') v). a \<noteq> 0)"
    then have z: "cs * a + sn * b = 0" "- sn * a + cs * b = 0" "c = 0" by (simp_all add: mv)
    have "a = (cs * cs + sn * sn) * a" using one by simp
    also have "\<dots> = cs * (cs * a + sn * b) - sn * (- sn * a + cs * b)" by (simp add: algebra_simps)
    also have "\<dots> = 0" unfolding z by simp
    finally have a0: "a = 0" .
    have "b = (cs * cs + sn * sn) * b" using one by simp
    also have "\<dots> = sn * (cs * a + sn * b) + cs * (- sn * a + cs * b)" by (simp add: algebra_simps)
    also have "\<dots> = 0" unfolding z by simp
    finally have b0: "b = 0" .
    show False using assms(3) a0 b0 z(3) by (simp add: v)
  qed
qed

lemma ex_Q: "Q ex_cfg = ex_I3"
  by (simp add: ex_cfg_def ex_I3_def)

lemma matT_ex_I3: "matT ex_I3 = ex_I3"
  by (simp add: ex_I3_def matT_def col_def ncols_def upt_0_3)

lemma pd_ex_I3: "pd ex_I3"
  unfolding pd_def
proof (intro allI impI)
  fix v :: vec assume a: "length v = length ex_I3 \<and> (\<exists>a\<in>set v. a \<noteq> 0)"
  then have "length v = 3" by (simp add: ex_I3_def)
  then obtain x y z where v: "v = [x, y, z]" using vec3 by blast
  have "quad ex_I3 v = dot v v" by (simp add: quad_def matvec_def ex_I3_def v)
  then show "0 < quad ex_I3 v" using dot_self_pos[of v] a by simp
qed

lemma psd_zero: "psd (replicate n (replicate m 0))"
proof -
  have "dot (replicate m 0) v = 0" for v :: vec
  proof (induction m arbitrary: v)
    case 0
    show ?case by simp
  next
    case (Suc m)
    show ?case by (cases v) (simp_all add: Suc)
  qed
  then have "matvec (replicate n (replicate m 0)) v = replicate n 0" for v :: vec
    by (simp add: matvec_def)
  moreover have "dot v (replicate n 0) = 0" for v :: vec
  proof (induction n arbitrary: v)
    case 0
    show ?case by simp
  next
    case (Suc n)
    show ?case by (cases v) (simp_all add: Suc)
  qed
  ultimately show ?thesis by (simp add: psd_def quad_def)
qed

lemma psd_ex_Z3: "psd ex_Z3"
  using psd_zero[of 3 3] by (simp add: ex_Z3_def eval_nat_numeral)

lemma psd_ex_P0: "psd ex_P0"
  using psd_zero[of 5 5] by (simp add: ex_P0_def eval_nat_numeral)

lemma matT_ex_P0: "matT ex_P0 = ex_P0"
  by (simp add: ex_P0_def matT_def col_def ncols_def upt_0_5)

lemma matT_ex_Z3: "matT ex_Z3 = ex_Z3"
  by (simp add: ex_Z3_def matT_def col_def ncols_def upt_0_3)

lemma matT_ex_P0_pred: "matT ex_P0_pred = ex_P0_pred"
  by (simp add: ex_P0_pred_def matT_def col_def ncols_def upt_0_5)

lemma ex_motion:
  "f [0, 0, 0] [0, 0, 0] = Inr [0, 0, 0]"
  "Fx [0, 0, 0] [0, 0, 0] = Inr ex_I3"
  "Fu [0, 0, 0] [0, 0, 0] = Inr ex_I3"
  by (simp_all add: f_def Fx_def Fu_def wrapToPi_0 ex_I3_def)

lemma ex_noise: "matmul (matmul ex_I3 ex_I3) (matT ex_I3) = ex_I3"
  by (simp add: ex_I3_def matmul_def matT_def col_def ncols_def upt_0_3)

lemma predict_P_ex_P0: "predict_P ex_cfg ex_P0 ex_I3 ex_I3 = ex_P0_pred"
proof -
  have s: "slice2 ex_P0 0 3 0 3 = ex_Z3" by (simp add: ex_P0_def ex_Z3_def slice2_def)
  have x: "matmul (matmul ex_I3 ex_Z3) (matT ex_I3) = ex_Z3"
    by (simp add: ex_I3_def ex_Z3_def matmul_def matT_def col_def ncols_def upt_0_3)
  have a: "mat_add ex_Z3 ex_I3 = ex_I3"
    by (simp add: ex_I3_def ex_Z3_def mat_add_def vec_add_def)
  have p1: "set_block ex_P0 0 0 ex_I3 = ex_P0_pred"
    by (simp add: set_block_def set_row_part_def ex_P0_def ex_I3_def ex_P0_pred_def upt_0_5)
  have m: "matmul ex_I3 (map (drop 3) (take 3 ex_P0_pred)) = [[0, 0], [0, 0], [0, 0]]"
    by (simp add: ex_I3_def ex_P0_pred_def matmul_def col_def ncols_def upt_0_2)
  have p2: "set_block ex_P0_pred 0 3 [[0, 0], [0, 0], [0, 0]] = ex_P0_pred"
    by (simp add: set_block_def set_row_part_def ex_P0_pred_def upt_0_5)
  have c: "matmul (map (take 3) (drop 3 ex_P0_pred)) (matT ex_I3) = [[0, 0, 0], [0, 0, 0]]"
    by (simp add: ex_I3_def ex_P0_pred_def matmul_def matT_def col_def ncols_def upt_0_3)
  have p3: "set_block ex_P0_pred 3 0 [[0, 0, 0], [0, 0, 0]] = ex_P0_pred"
    by (simp add: set_block_def set_row_part_def ex_P0_pred_def upt_0_5)
  show ?thesis
    unfolding predict_P_def Let_def ex_Q s x ex_noise a p1 m p2 c p3 by (rule refl)
qed

lemma not_eigvals_gt0_ex_P0_pred: "\<not> eigvals_gt0 ex_P0_pred"
proof -
  have "matvec ex_P0_pred [0, 0, 0, 1, 0] = map (\<lambda>a. 0 * a) [0, 0, 0, 1, 0]"
    by (simp add: matvec_def ex_P0_pred_def)
  then have "is_eigval ex_P0_pred 0"
    unfolding is_eigval_def
    by (intro exI[of _ "[0, 0, 0, 1, 0]"]) (simp add: ex_P0_pred_def)
  then show ?thesis by (auto simp: eigvals_gt0_def)
qed

lemma dot_sum: "length xs = length ys \<Longrightarrow> dot xs ys = (\<Sum>i<length xs. xs ! i * (ys ! i :: real))"
proof (induction xs arbitrary: ys)
  case Nil
  show ?case by simp
next
  case (Cons x xs)
  then obtain y ys' where ys: "ys = y # ys'" by (cases ys) auto
  then have "length xs = length ys'" using Cons.prems by simp
  then show ?case using Cons.IH[of ys'] by (simp add: ys sum.lessThan_Suc_shift del: sum.lessThan_Suc)
qed

lemma nth_matvec: "i < length M \<Longrightarrow> matvec M w ! i = dot (M ! i) w"
  by (simp add: matvec_def)

lemma quad_sum:
  fixes M :: mat
  assumes "is_mat N N M" "length w = N"
  shows "quad M w = (\<Sum>i<N. \<Sum>j<N. w ! i * M ! i ! j * w ! j)"
proof -
  have "quad M w = (\<Sum>i<N. w ! i * matvec M w ! i)"
    using assms by (simp add: quad_def dot_sum is_mat_def)
  also have "\<dots> = (\<Sum>i<N. w ! i * (\<Sum>j<N. M ! i ! j * w ! j))"
  proof (rule sum.cong[OF refl])
    fix i assume "i \<in> {..<N}"
    then have i: "i < N" by simp
    have "length (M ! i) = length w" using is_mat_nth[OF assms(1) i] assms(2) by simp
    then have "dot (M ! i) w = (\<Sum>j<N. M ! i ! j * w ! j)"
      using dot_sum[of "M ! i" w] is_mat_nth[OF assms(1) i] by simp
    then show "w ! i * matvec M w ! i = w ! i * (\<Sum>j<N. M ! i ! j * w ! j)"
      using i assms(1) by (simp add: nth_matvec is_mat_def)
  qed
  also have "\<dots> = (\<Sum>i<N. \<Sum>j<N. w ! i * M ! i ! j * w ! j)"
    by (simp add: sum_distrib_left mult.assoc)
  finally show ?thesis .
qed

lemma sum_split: "(\<Sum>i<n + m. g i) = (\<Sum>i<n. g i) + (\<Sum>i<(m::nat). g (n + i) :: real)"
  by (induction m) (simp_all add: add.assoc)

lemma sum_pairs: "(\<Sum>i<2 * k. g i) = (\<Sum>b<(k::nat). g (2 * b) + g (2 * b + 1) :: real)"
  by (induction k) (simp_all add: add.assoc)

lemma sum_if_less:
  fixes c n :: nat
  assumes c: "c \<le> n"
  shows "(\<Sum>j<n. F j * (if j < c then T j else 0)) = (\<Sum>j<c. F j * (T j :: real))"
proof -
  have "(\<Sum>j<n. F j * (if j < c then T j else 0)) = (\<Sum>j<n. if j < c then F j * T j else 0)"
    by (rule sum.cong) auto
  also have "\<dots> = (\<Sum>j\<in>{..<n} \<inter> {j. j < c}. F j * T j)"
    by (simp add: sum.If_cases)
  also have "{..<n} \<inter> {j. j < c} = {..<c}" using c by auto
  finally show ?thesis .
qed

lemma sum3: "(\<Sum>a<(3::nat). g a) = g 0 + g 1 + (g 2 :: real)"
  by (simp add: eval_nat_numeral)

lemma block_TR:
  fixes Pf Gf :: "nat \<Rightarrow> nat \<Rightarrow> real" and V :: "nat \<Rightarrow> real" and m :: nat
  shows "(\<Sum>j<m. u * (\<Sum>a<3. Pf i a * Gf j a) * V j)
       = u * (\<Sum>a<3. Pf i a * (\<Sum>j<m. Gf j a * V j))"
  unfolding sum3
  by (simp add: sum_distrib_left sum.distrib algebra_simps)

lemma block_BR:
  fixes Pf Gf :: "nat \<Rightarrow> nat \<Rightarrow> real" and V :: "nat \<Rightarrow> real" and m :: nat
  shows "(\<Sum>i<m. \<Sum>j<m. V i * (\<Sum>b<3. (\<Sum>a<3. Gf i a * Pf a b) * Gf j b) * V j)
      = (\<Sum>a<3. \<Sum>b<3. (\<Sum>j<m. Gf j a * V j) * Pf a b * (\<Sum>j<m. Gf j b * V j))"
proof -
  define T where "T = (\<lambda>a. \<Sum>j<m. Gf j a * V j)"
  have "(\<Sum>i<m. \<Sum>j<m. V i * (\<Sum>b<3. (\<Sum>a<3. Gf i a * Pf a b) * Gf j b) * V j)
      = (\<Sum>i<m. V i * (\<Sum>b<3. (\<Sum>a<3. Gf i a * Pf a b) * T b))"
    unfolding T_def by (rule sum.cong[OF refl]) (rule block_TR)
  also have "\<dots> = (\<Sum>i<m. (Gf i 0 * V i) * (\<Sum>b<3. Pf 0 b * T b)
       + (Gf i 1 * V i) * (\<Sum>b<3. Pf 1 b * T b) + (Gf i 2 * V i) * (\<Sum>b<3. Pf 2 b * T b))"
    unfolding sum3 by (rule sum.cong[OF refl]) (simp add: algebra_simps)
  also have "\<dots> = T 0 * (\<Sum>b<3. Pf 0 b * T b) + T 1 * (\<Sum>b<3. Pf 1 b * T b)
       + T 2 * (\<Sum>b<3. Pf 2 b * T b)"
    by (simp add: sum.distrib sum_distrib_right T_def)
  also have "\<dots> = (\<Sum>a<3. \<Sum>b<3. T a * Pf a b * T b)"
    unfolding sum3 by (simp add: algebra_simps)
  finally show ?thesis unfolding T_def .
qed

lemma block_quad_identity:
  fixes Pf Gf Rf :: "nat \<Rightarrow> nat \<Rightarrow> real" and U V :: "nat \<Rightarrow> real" and n m :: nat
  assumes sym: "\<And>i j. i < n \<Longrightarrow> j < n \<Longrightarrow> Pf i j = Pf j i" and n3: "3 \<le> n"
  defines "T \<equiv> \<lambda>a. \<Sum>j<m. Gf j a * V j"
  defines "p \<equiv> \<lambda>i. if i < 3 then T i else 0"
  shows "(\<Sum>i<n. \<Sum>j<n. U i * Pf i j * U j)
       + (\<Sum>i<n. \<Sum>j<m. U i * (\<Sum>a<3. Pf i a * Gf j a) * V j)
       + (\<Sum>i<m. \<Sum>j<n. V i * (\<Sum>a<3. Pf j a * Gf i a) * U j)
       + (\<Sum>i<m. \<Sum>j<m. V i * ((\<Sum>b<3. (\<Sum>a<3. Gf i a * Pf a b) * Gf j b) + Rf i j) * V j)
     = (\<Sum>i<n. \<Sum>j<n. (U i + p i) * Pf i j * (U j + p j))
       + (\<Sum>i<m. \<Sum>j<m. V i * Rf i j * V j)"
proof -
  define W where "W = (\<Sum>i<n. U i * (\<Sum>a<3. Pf i a * T a))"
  define TT where "TT = (\<Sum>a<3. \<Sum>b<3. T a * Pf a b * T b)"
  have TR: "(\<Sum>i<n. \<Sum>j<m. U i * (\<Sum>a<3. Pf i a * Gf j a) * V j) = W"
    unfolding W_def T_def by (rule sum.cong[OF refl]) (rule block_TR)
  have "(\<Sum>i<m. \<Sum>j<n. V i * (\<Sum>a<3. Pf j a * Gf i a) * U j)
      = (\<Sum>j<n. \<Sum>i<m. V i * (\<Sum>a<3. Pf j a * Gf i a) * U j)"
    by (rule sum.swap)
  also have "\<dots> = (\<Sum>j<n. \<Sum>i<m. U j * (\<Sum>a<3. Pf j a * Gf i a) * V i)"
    by (simp add: mult.commute mult.left_commute)
  finally have BL: "(\<Sum>i<m. \<Sum>j<n. V i * (\<Sum>a<3. Pf j a * Gf i a) * U j) = W"
    using TR by simp
  have BR: "(\<Sum>i<m. \<Sum>j<m. V i * ((\<Sum>b<3. (\<Sum>a<3. Gf i a * Pf a b) * Gf j b) + Rf i j) * V j)
      = TT + (\<Sum>i<m. \<Sum>j<m. V i * Rf i j * V j)"
    unfolding TT_def T_def block_BR[symmetric]
    by (simp add: distrib_left distrib_right sum.distrib)
  have e1: "(\<Sum>j<n. U i * Pf i j * p j) = U i * (\<Sum>a<3. Pf i a * T a)" for i
    unfolding p_def using sum_if_less[OF n3, of "\<lambda>j. U i * Pf i j" T]
    by (simp add: sum_distrib_left mult.assoc)
  have e2: "(\<Sum>i<n. p i * Pf i j * U j) = U j * (\<Sum>a<3. Pf j a * T a)" if "j < n" for j
  proof -
    have "(\<Sum>i<n. p i * Pf i j * U j) = (\<Sum>i<n. (U j * Pf j i) * p i)"
      by (rule sum.cong[OF refl]) (simp add: sym[OF _ that])
    also have "\<dots> = (\<Sum>a<3. (U j * Pf j a) * T a)"
      unfolding p_def by (rule sum_if_less[OF n3])
    finally show ?thesis by (simp add: sum_distrib_left mult.assoc)
  qed
  have e3: "(\<Sum>i<n. \<Sum>j<n. p i * Pf i j * p j) = TT"
  proof -
    have a: "(\<Sum>j<n. p i * Pf i j * p j) = (\<Sum>b<3. p i * Pf i b * T b)" for i
      unfolding p_def by (rule sum_if_less[OF n3])
    have b: "(\<Sum>b<3. p i * Pf i b * T b) = (\<Sum>b<3. Pf i b * T b) * p i" for i
      unfolding sum3 by (simp add: algebra_simps)
    have "(\<Sum>i<n. \<Sum>j<n. p i * Pf i j * p j) = (\<Sum>i<n. (\<Sum>b<3. Pf i b * T b) * p i)"
      by (simp only: a b)
    also have "\<dots> = (\<Sum>a<3. (\<Sum>b<3. Pf a b * T b) * T a)"
      unfolding p_def by (rule sum_if_less[OF n3])
    also have "\<dots> = TT"
      unfolding TT_def sum3 by (simp add: algebra_simps)
    finally show ?thesis .
  qed
  have "(\<Sum>i<n. \<Sum>j<n. (U i + p i) * Pf i j * (U j + p j))
      = (\<Sum>i<n. \<Sum>j<n. U i * Pf i j * U j) + (\<Sum>i<n. \<Sum>j<n. U i * Pf i j * p j)
        + (\<Sum>i<n. \<Sum>j<n. p i * Pf i j * U j) + (\<Sum>i<n. \<Sum>j<n. p i * Pf i j * p j)"
    by (simp add: distrib_left distrib_right sum.distrib)
  also have "(\<Sum>i<n. \<Sum>j<n. U i * Pf i j * p j) = W"
    unfolding W_def by (simp only: e1)
  also have "(\<Sum>i<n. \<Sum>j<n. p i * Pf i j * U j) = (\<Sum>j<n. \<Sum>i<n. p i * Pf i j * U j)"
    by (rule sum.swap)
  also have "\<dots> = W"
    unfolding W_def by (rule sum.cong[OF refl]) (simp add: e2)
  also note e3
  finally show ?thesis unfolding TR BL BR by simp
qed

lemma dot3_sum:
  "length xs = 3 \<Longrightarrow> length ys = 3 \<Longrightarrow> dot xs ys = (\<Sum>a<3. xs ! a * (ys ! a :: real))"
  using dot_sum[of xs ys] by simp

lemma al_cross_entry:
  fixes P G :: mat
  assumes P: "is_mat n n P" and n3: "3 \<le> n" and G: "is_mat m 3 G" and i: "i < n" and j: "j < m"
  shows "matmul (map (take 3) P) (matT G) ! i ! j = (\<Sum>a<3. P ! i ! a * G ! j ! a)"
proof -
  have nc: "ncols (matT G) = m" using ncols_matT[OF G] by simp
  have li: "length (P ! i) = n" using is_mat_nth[OF P i] .
  have "matmul (map (take 3) P) (matT G) ! i ! j = dot (take 3 (P ! i)) (G ! j)"
    using i j P by (simp add: nth_matmul nc col_matT[OF G j] is_mat_def)
  also have "\<dots> = (\<Sum>a<3. take 3 (P ! i) ! a * G ! j ! a)"
    using li n3 is_mat_nth[OF G j] by (intro dot3_sum) simp_all
  also have "\<dots> = (\<Sum>a<3. P ! i ! a * G ! j ! a)"
    by (rule sum.cong) simp_all
  finally show ?thesis .
qed

lemma al_congruence_entry:
  fixes P G :: mat
  assumes P: "is_mat n n P" and n3: "3 \<le> n" and G: "is_mat m 3 G" and i: "i < m" and j: "j < m"
  shows "matmul (matmul G (slice2 P 0 3 0 3)) (matT G) ! i ! j
       = (\<Sum>b<3. (\<Sum>a<3. G ! i ! a * P ! a ! b) * G ! j ! b)"
proof -
  define S where "S = slice2 P 0 3 0 3"
  have S: "is_mat 3 3 S" unfolding S_def by (simp add: slice2_33[OF P n3] is_mat_def)
  have ncS: "ncols S = 3" using S by (simp add: ncols_is_mat)
  have Snth: "S ! a ! b = P ! a ! b" if "a < 3" "b < 3" for a b
  proof -
    have "a = 0 \<or> a = 1 \<or> a = 2" "b = 0 \<or> b = 1 \<or> b = 2" using that by auto
    then show ?thesis unfolding S_def slice2_33[OF P n3] by auto
  qed
  have nc: "ncols (matT G) = m" using ncols_matT[OF G] by simp
  have lG: "length G = m" using G by (simp add: is_mat_def)
  have row: "matmul G S ! i ! b = (\<Sum>a<3. G ! i ! a * P ! a ! b)" if b: "b < 3" for b
  proof -
    have "matmul G S ! i ! b = dot (G ! i) (col S b)"
      using i b by (simp add: nth_matmul lG ncS)
    also have "\<dots> = (\<Sum>a<3. G ! i ! a * col S b ! a)"
      using is_mat_nth[OF G i] S by (intro dot3_sum) (simp_all add: col_def is_mat_def)
    also have "\<dots> = (\<Sum>a<3. G ! i ! a * P ! a ! b)"
      using S Snth b by (intro sum.cong) (simp_all add: col_def is_mat_def)
    finally show ?thesis .
  qed
  have lrow: "length (matmul G S ! i) = 3" using i by (simp add: lG ncS)
  have "matmul (matmul G S) (matT G) ! i ! j = dot (matmul G S ! i) (G ! j)"
    using i j by (simp add: nth_matmul nc lG col_matT[OF G j])
  also have "\<dots> = (\<Sum>b<3. matmul G S ! i ! b * G ! j ! b)"
    using lrow is_mat_nth[OF G j] by (intro dot3_sum) simp_all
  also have "\<dots> = (\<Sum>b<3. (\<Sum>a<3. G ! i ! a * P ! a ! b) * G ! j ! b)"
    by (rule sum.cong) (simp_all add: row)
  finally show ?thesis unfolding S_def .
qed

lemma psd_al_Padded:
  fixes z :: vec and P :: mat
  assumes P: "is_mat n n P" and n3: "3 \<le> n" and symP: "matT P = P" and psdP: "psd P"
    and psdR: "psd (al_Rall cfg eta z)"
  shows "psd (al_Padded cfg eta P z)"
  unfolding psd_def
proof (intro allI impI)
  fix w :: vec
  define m where "m = length z div 2 * 2"
  define M where "M = al_Padded cfg eta P z"
  define G where "G = al_Gx_all cfg eta z"
  define Rl where "Rl = al_Rall cfg eta z"
  define U where "U = (\<lambda>i. w ! i)"
  define V where "V = (\<lambda>j. w ! (n + j))"
  define Pf where "Pf = (\<lambda>i j. P ! i ! j)"
  define Gf where "Gf = (\<lambda>j a. G ! j ! a)"
  define Rf where "Rf = (\<lambda>i j. Rl ! i ! j)"
  define T where "T = (\<lambda>a. \<Sum>j<m. Gf j a * V j)"
  define p where "p = (\<lambda>i. if i < 3 then T i else 0)"
  have n0: "0 < n" using n3 by simp
  note pp = al_Padded_props[OF P n0, where z = z and cfg = cfg and eta = eta,
      folded m_def M_def G_def]
  assume "length w = length (al_Padded cfg eta P z)"
  then have lw: "length w = n + m" using pp(1) by (simp add: M_def is_mat_def)
  have Gm: "is_mat m 3 G" unfolding G_def m_def by (rule is_mat_al_Gx_all)
  have Rm: "is_mat m m Rl" unfolding Rl_def m_def by (rule is_mat_al_Rall)
  have Xm: "is_mat m m (matmul (matmul G (slice2 P 0 3 0 3)) (matT G))"
    using is_mat_matmul_matT[OF Gm, of "matmul G (slice2 P 0 3 0 3)" m] Gm by (simp add: is_mat_def)
  have sym: "Pf i j = Pf j i" if "i < n" "j < n" for i j
    using symP that unfolding Pf_def matT_eq_iff[OF P n0] by blast
  have TL: "M ! i ! j = Pf i j" if "i < n" "j < n" for i j
    using pp(2)[OF that] by (simp add: Pf_def)
  have TR: "M ! i ! (n + j) = (\<Sum>a<3. Pf i a * Gf j a)" if "i < n" "j < m" for i j
    using pp(4)[OF that] al_cross_entry[OF P n3 Gm that] by (simp add: Pf_def Gf_def)
  have BL: "M ! (n + i) ! j = (\<Sum>a<3. Pf j a * Gf i a)" if "i < m" "j < n" for i j
    using pp(5)[OF that] TR[OF that(2,1)] by simp
  have BR: "M ! (n + i) ! (n + j) = (\<Sum>b<3. (\<Sum>a<3. Gf i a * Pf a b) * Gf j b) + Rf i j"
    if "i < m" "j < m" for i j
  proof -
    have "al_block2 cfg eta P z ! i ! j
        = matmul (matmul G (slice2 P 0 3 0 3)) (matT G) ! i ! j + Rl ! i ! j"
      unfolding al_block2_def Let_def G_def[symmetric] Rl_def[symmetric]
      using that Xm Rm ncols_matT[OF Gm] by (intro nth_mat_add) (simp_all add: is_mat_iff)
    then show ?thesis
      using pp(3)[OF that] al_congruence_entry[OF P n3 Gm that]
      by (simp add: Pf_def Gf_def Rf_def)
  qed
  have "quad M w = (\<Sum>i<n + m. \<Sum>j<n + m. w ! i * M ! i ! j * w ! j)"
    by (rule quad_sum[OF pp(1) lw])
  also have "\<dots> = (\<Sum>i<n. (\<Sum>j<n. U i * M ! i ! j * U j) + (\<Sum>j<m. U i * M ! i ! (n + j) * V j))
       + (\<Sum>i<m. (\<Sum>j<n. V i * M ! (n + i) ! j * U j) + (\<Sum>j<m. V i * M ! (n + i) ! (n + j) * V j))"
    by (simp add: sum_split U_def V_def)
  also have "\<dots> = (\<Sum>i<n. (\<Sum>j<n. U i * Pf i j * U j) + (\<Sum>j<m. U i * (\<Sum>a<3. Pf i a * Gf j a) * V j))
       + (\<Sum>i<m. (\<Sum>j<n. V i * (\<Sum>a<3. Pf j a * Gf i a) * U j)
            + (\<Sum>j<m. V i * ((\<Sum>b<3. (\<Sum>a<3. Gf i a * Pf a b) * Gf j b) + Rf i j) * V j))"
    by (simp add: TL TR BL BR)
  also have "\<dots> = (\<Sum>i<n. \<Sum>j<n. U i * Pf i j * U j)
       + (\<Sum>i<n. \<Sum>j<m. U i * (\<Sum>a<3. Pf i a * Gf j a) * V j)
       + (\<Sum>i<m. \<Sum>j<n. V i * (\<Sum>a<3. Pf j a * Gf i a) * U j)
       + (\<Sum>i<m. \<Sum>j<m. V i * ((\<Sum>b<3. (\<Sum>a<3. Gf i a * Pf a b) * Gf j b) + Rf i j) * V j)"
    by (simp add: sum.distrib)
  also have "\<dots> = (\<Sum>i<n. \<Sum>j<n. (U i + p i) * Pf i j * (U j + p j))
       + (\<Sum>i<m. \<Sum>j<m. V i * Rf i j * V j)"
    unfolding p_def T_def by (rule block_quad_identity[OF sym n3])
  finally have q: "quad M w = (\<Sum>i<n. \<Sum>j<n. (U i + p i) * Pf i j * (U j + p j))
       + (\<Sum>i<m. \<Sum>j<m. V i * Rf i j * V j)" .
  define ut where "ut = map (\<lambda>i. U i + p i) [0..<n]"
  have "quad P ut = (\<Sum>i<n. \<Sum>j<n. ut ! i * P ! i ! j * ut ! j)"
    by (rule quad_sum[OF P]) (simp add: ut_def)
  also have "\<dots> = (\<Sum>i<n. \<Sum>j<n. (U i + p i) * Pf i j * (U j + p j))"
    by (simp add: ut_def Pf_def)
  finally have q1: "(\<Sum>i<n. \<Sum>j<n. (U i + p i) * Pf i j * (U j + p j)) = quad P ut" by simp
  have "quad Rl (drop n w) = (\<Sum>i<m. \<Sum>j<m. drop n w ! i * Rl ! i ! j * drop n w ! j)"
    by (rule quad_sum[OF Rm]) (simp add: lw)
  also have "\<dots> = (\<Sum>i<m. \<Sum>j<m. V i * Rf i j * V j)"
    using lw by (simp add: V_def Rf_def)
  finally have q2: "(\<Sum>i<m. \<Sum>j<m. V i * Rf i j * V j) = quad Rl (drop n w)" by simp
  have "0 \<le> quad P ut" using psdP P by (simp add: psd_def ut_def is_mat_def)
  moreover have "0 \<le> quad Rl (drop n w)"
    using psdR Rm lw by (simp add: psd_def Rl_def is_mat_def)
  ultimately show "0 \<le> quad (al_Padded cfg eta P z) w"
    unfolding M_def[symmetric] q q1 q2 by simp
qed

lemma al_Rall_fold:
  fixes z :: vec
  assumes k: "k \<le> K"
  shows "is_mat (K * 2) (K * 2)
      (foldl (\<lambda>Rall j. set_block Rall (2 * j) (2 * j) (al_Gz_c cfg eta z j))
                   (zeros (K * 2) (K * 2)) [0..<k]) \<and>
    (\<forall>i<K * 2. \<forall>j<K * 2.
        foldl (\<lambda>Rall j. set_block Rall (2 * j) (2 * j) (al_Gz_c cfg eta z j))
                   (zeros (K * 2) (K * 2)) [0..<k] ! i ! j =
        (if i div 2 < k \<and> i div 2 = j div 2 then al_Gz_c cfg eta z (i div 2) ! (i mod 2) ! (j mod 2)
         else 0))"
  using k
proof (induction k)
  case 0
  show ?case by (simp add: is_mat_zeros nth_zeros)
next
  case (Suc k)
  define H where "H = foldl (\<lambda>Rall j. set_block Rall (2 * j) (2 * j) (al_Gz_c cfg eta z j))
                   (zeros (K * 2) (K * 2)) [0..<k]"
  have kK: "k < K" using Suc.prems by simp
  have H: "is_mat (K * 2) (K * 2) H"
    and Hnth: "\<And>i j. i < K * 2 \<Longrightarrow> j < K * 2 \<Longrightarrow> H ! i ! j =
        (if i div 2 < k \<and> i div 2 = j div 2 then al_Gz_c cfg eta z (i div 2) ! (i mod 2) ! (j mod 2)
         else 0)"
    using Suc.IH kK unfolding H_def by auto
  have step: "foldl (\<lambda>Rall j. set_block Rall (2 * j) (2 * j) (al_Gz_c cfg eta z j))
                   (zeros (K * 2) (K * 2)) [0..<Suc k]
      = set_block H (2 * k) (2 * k) (al_Gz_c cfg eta z k)"
    by (simp add: H_def)
  have H2: "is_mat (K * 2) (K * 2) (set_block H (2 * k) (2 * k) (al_Gz_c cfg eta z k))"
    by (rule is_mat_set_block[OF H is_mat_al_Gz_c]) (use kK in auto)
  have nth: "set_block H (2 * k) (2 * k) (al_Gz_c cfg eta z k) ! i ! j =
        (if i div 2 < Suc k \<and> i div 2 = j div 2
         then al_Gz_c cfg eta z (i div 2) ! (i mod 2) ! (j mod 2) else 0)"
    if i: "i < K * 2" and j: "j < K * 2" for i j
  proof -
    have e: "set_block H (2 * k) (2 * k) (al_Gz_c cfg eta z k) ! i ! j =
       (if 2 * k \<le> i \<and> i < 2 * k + 2 \<and> 2 * k \<le> j \<and> j < 2 * k + 2
        then al_Gz_c cfg eta z k ! (i - 2 * k) ! (j - 2 * k) else H ! i ! j)"
      by (rule nth_nth_set_block[OF H is_mat_al_Gz_c _ _ i j]) (use kK in auto)
    show ?thesis
    proof (cases "i div 2 = k")
      case True
      then have ik: "2 * k \<le> i" "i < 2 * k + 2" "i - 2 * k = i mod 2" by presburger+
      show ?thesis
      proof (cases "j div 2 = k")
        case jT: True
        then have "2 * k \<le> j" "j < 2 * k + 2" "j - 2 * k = j mod 2" by presburger+
        then show ?thesis using e ik True jT by simp
      next
        case jF: False
        then have "\<not> (2 * k \<le> j \<and> j < 2 * k + 2)" by presburger
        then show ?thesis using e Hnth[OF i j] True jF by auto
      qed
    next
      case False
      then have "\<not> (2 * k \<le> i \<and> i < 2 * k + 2)" by presburger
      then show ?thesis using e Hnth[OF i j] False by (auto simp: less_Suc_eq)
    qed
  qed
  show ?case unfolding step using H2 nth by blast
qed

lemma al_Rall_entries:
  fixes z :: vec
  assumes "i < length z div 2 * 2" "j < length z div 2 * 2"
  shows "al_Rall cfg eta z ! i ! j =
        (if i div 2 = j div 2 then al_Gz_c cfg eta z (i div 2) ! (i mod 2) ! (j mod 2) else 0)"
proof -
  have "i div 2 < length z div 2" using assms(1) by auto
  then show ?thesis
    using al_Rall_fold[OF order_refl, of "length z div 2" cfg eta z] assms
    by (simp add: al_Rall_def Let_def)
qed

lemma mat22_cases:
  assumes "is_mat 2 2 G"
  obtains a b c d where "G = [[a, b], [c, d]]"
proof -
  obtain r0 r1 where G: "G = [r0, r1]"
    using vec2[of G] assms by (auto simp: is_mat_def)
  have l: "length r0 = 2" "length r1 = 2"
    using assms by (simp_all add: G is_mat_def)
  obtain a b where r0: "r0 = [a, b]" using vec2[OF l(1)] by blast
  obtain c d where r1: "r1 = [c, d]" using vec2[OF l(2)] by blast
  show ?thesis by (rule that[of a b c d]) (simp add: G r0 r1)
qed

lemma quad_congruence22:
  "quad (matmul (matmul [[g00, g01], [g10, g11]] [[s00, s01], [s10, s11]])
                (matT [[g00, g01], [g10, g11]])) [x, y]
   = quad [[s00, s01], [s10, s11]] (matvec (matT [[g00, g01], [g10, g11]]) [x, y])"
  by (simp add: quad_def matvec_def matmul_def matT_def col_def ncols_def upt_0_2 algebra_simps)

lemma sym_congruence22:
  "matT (matmul (matmul [[g00, g01], [g10, g11]] [[s00, s01], [s01, s11]])
                (matT [[g00, g01], [g10, g11 :: real]]))
   = matmul (matmul [[g00, g01], [g10, g11]] [[s00, s01], [s01, s11]])
                (matT [[g00, g01], [g10, g11]])"
  by (simp add: matmul_def matT_def col_def ncols_def upt_0_2 algebra_simps)

lemma is_mat_al_Gz: "is_mat 2 2 (al_Gz eta z j)"
  by (simp add: al_Gz_def Let_def is_mat_def matmul_def ncols_def rotmat2d_def upt_0_2)

lemma psd_al_Gz_c:
  assumes R: "is_mat 2 2 (R cfg)" and psd: "psd (R cfg)"
  shows "0 \<le> quad (al_Gz_c cfg eta z j) [x, y]"
proof -
  obtain g00 g01 g10 g11 where g: "al_Gz eta z j = [[g00, g01], [g10, g11]]"
    by (rule mat22_cases[OF is_mat_al_Gz])
  obtain s00 s01 s10 s11 where s: "R cfg = [[s00, s01], [s10, s11]]"
    by (rule mat22_cases[OF R])
  have "quad (al_Gz_c cfg eta z j) [x, y]
      = quad (R cfg) (matvec (matT (al_Gz eta z j)) [x, y])"
    unfolding al_Gz_c_def g s by (rule quad_congruence22)
  moreover have "length (matvec (matT (al_Gz eta z j)) [x, y]) = length (R cfg)"
    by (simp add: g s ncols_def)
  ultimately show ?thesis using psd by (simp add: psd_def)
qed

lemma sym_al_Gz_c:
  assumes R: "is_mat 2 2 (R cfg)" and symR: "matT (R cfg) = R cfg"
  shows "matT (al_Gz_c cfg eta z j) = al_Gz_c cfg eta z j"
proof -
  obtain g00 g01 g10 g11 where g: "al_Gz eta z j = [[g00, g01], [g10, g11]]"
    by (rule mat22_cases[OF is_mat_al_Gz])
  obtain s00 s01 s10 s11 where s: "R cfg = [[s00, s01], [s10, s11]]"
    by (rule mat22_cases[OF R])
  have "R cfg ! 1 ! 0 = R cfg ! 0 ! 1"
    using matT_nth[OF R, of 0 1] unfolding symR by simp
  then have e: "s10 = s01" unfolding s by simp
  show ?thesis unfolding al_Gz_c_def g s e by (rule sym_congruence22)
qed

lemma al_Rall_row_sum:
  fixes z v :: vec
  assumes i: "i < length z div 2 * 2"
  shows "(\<Sum>j<length z div 2 * 2. v ! i * al_Rall cfg eta z ! i ! j * v ! j)
      = v ! i * (al_Gz_c cfg eta z (i div 2) ! (i mod 2) ! 0 * v ! (2 * (i div 2))
               + al_Gz_c cfg eta z (i div 2) ! (i mod 2) ! 1 * v ! (2 * (i div 2) + 1))"
proof -
  define K where "K = length z div 2"
  define X where "X = (\<lambda>b. v ! i * (al_Gz_c cfg eta z b ! (i mod 2) ! 0 * v ! (2 * b)
               + al_Gz_c cfg eta z b ! (i mod 2) ! 1 * v ! (2 * b + 1)))"
  have iK: "i div 2 < K" using i unfolding K_def by auto
  have "(\<Sum>j<2 * K. v ! i * al_Rall cfg eta z ! i ! j * v ! j)
      = (\<Sum>b<K. v ! i * al_Rall cfg eta z ! i ! (2 * b) * v ! (2 * b)
              + v ! i * al_Rall cfg eta z ! i ! (2 * b + 1) * v ! (2 * b + 1))"
    by (rule sum_pairs)
  also have "\<dots> = (\<Sum>b<K. if b = i div 2 then X b else 0)"
  proof (rule sum.cong[OF refl])
    fix b assume "b \<in> {..<K}"
    then have b: "2 * b < length z div 2 * 2" "2 * b + 1 < length z div 2 * 2"
      unfolding K_def by auto
    have d: "(2 * b) div 2 = b" "(2 * b + 1) div 2 = b" "(2 * b) mod 2 = 0" "(2 * b + 1) mod 2 = 1"
      by simp_all
    show "v ! i * al_Rall cfg eta z ! i ! (2 * b) * v ! (2 * b)
              + v ! i * al_Rall cfg eta z ! i ! (2 * b + 1) * v ! (2 * b + 1)
        = (if b = i div 2 then X b else 0)"
      unfolding al_Rall_entries[OF i b(1)] al_Rall_entries[OF i b(2)] d X_def
      by (auto simp: algebra_simps)
  qed
  also have "\<dots> = X (i div 2)" using iK by simp
  finally show ?thesis unfolding X_def K_def by (simp add: mult.commute)
qed

lemma quad22:
  assumes "is_mat 2 2 C"
  shows "quad C [x, y] = x * (C ! 0 ! 0 * x + C ! 0 ! 1 * y) + y * (C ! 1 ! 0 * x + C ! 1 ! 1 * y)"
proof -
  obtain a b c d where C: "C = [[a, b], [c, d]]" by (rule mat22_cases[OF assms])
  show ?thesis by (simp add: C quad_def matvec_def)
qed

lemma psd_al_Rall:
  fixes z :: vec
  assumes R: "is_mat 2 2 (R cfg)" and psd: "psd (R cfg)"
  shows "psd (al_Rall cfg eta z)"
  unfolding psd_def
proof (intro allI impI)
  fix v :: vec
  define K where "K = length z div 2"
  assume "length v = length (al_Rall cfg eta z)"
  then have lv: "length v = K * 2"
    using is_mat_al_Rall[of z cfg eta] by (simp add: is_mat_def K_def)
  have "quad (al_Rall cfg eta z) v
      = (\<Sum>i<K * 2. \<Sum>j<K * 2. v ! i * al_Rall cfg eta z ! i ! j * v ! j)"
    unfolding K_def by (rule quad_sum[OF is_mat_al_Rall]) (simp add: lv K_def)
  also have "\<dots> = (\<Sum>i<K * 2. v ! i * (al_Gz_c cfg eta z (i div 2) ! (i mod 2) ! 0 * v ! (2 * (i div 2))
               + al_Gz_c cfg eta z (i div 2) ! (i mod 2) ! 1 * v ! (2 * (i div 2) + 1)))"
    unfolding K_def by (rule sum.cong[OF refl]) (simp add: al_Rall_row_sum)
  also have "\<dots> = (\<Sum>i<2 * K. v ! i * (al_Gz_c cfg eta z (i div 2) ! (i mod 2) ! 0 * v ! (2 * (i div 2))
               + al_Gz_c cfg eta z (i div 2) ! (i mod 2) ! 1 * v ! (2 * (i div 2) + 1)))"
    by (simp add: mult.commute)
  also have "\<dots> = (\<Sum>b<K. quad (al_Gz_c cfg eta z b) [v ! (2 * b), v ! (2 * b + 1)])"
    unfolding sum_pairs quad22[OF is_mat_al_Gz_c]
    by (rule sum.cong[OF refl]) simp
  also have "\<dots> \<ge> 0"
    by (rule sum_nonneg) (rule psd_al_Gz_c[OF R psd])
  finally show "0 \<le> quad (al_Rall cfg eta z) v" .
qed

lemma sym_al_Rall_entries:
  fixes z :: vec
  assumes R: "is_mat 2 2 (R cfg)" and symR: "matT (R cfg) = R cfg"
    and i: "i < length z div 2 * 2" and j: "j < length z div 2 * 2"
  shows "al_Rall cfg eta z ! i ! j = al_Rall cfg eta z ! j ! i"
proof -
  have "al_Gz_c cfg eta z b ! r ! s = al_Gz_c cfg eta z b ! s ! r" if "r < 2" "s < 2" for b r s
    using matT_nth[OF is_mat_al_Gz_c that(2,1), of cfg eta z b]
    unfolding sym_al_Gz_c[OF R symR] by simp
  then show ?thesis
    unfolding al_Rall_entries[OF i j] al_Rall_entries[OF j i] by simp
qed

lemma sym_al_congruence_entries:
  fixes P G :: mat
  assumes P: "is_mat n n P" and n3: "3 \<le> n" and symP: "matT P = P"
  shows "(\<Sum>b<3. (\<Sum>a<3. G ! i ! a * P ! a ! b) * G ! j ! b)
       = (\<Sum>b<3. (\<Sum>a<3. G ! j ! a * P ! a ! b) * G ! i ! b)"
proof -
  have n0: "0 < n" using n3 by simp
  have pe: "P ! a ! b = P ! b ! a" if "a < n" "b < n" for a b
    using symP that unfolding matT_eq_iff[OF P n0] by blast
  have e: "P ! 1 ! 0 = P ! 0 ! 1" "P ! 2 ! 0 = P ! 0 ! 2" "P ! 2 ! 1 = P ! 1 ! 2"
    using pe[of 1 0] pe[of 2 0] pe[of 2 1] n3 by simp_all
  show ?thesis unfolding sum3 e by (simp add: algebra_simps)
qed

lemma sym_al_Padded:
  fixes z :: vec and P :: mat
  assumes P: "is_mat n n P" and n3: "3 \<le> n" and symP: "matT P = P"
    and R: "is_mat 2 2 (R cfg)" and symR: "matT (R cfg) = R cfg"
  shows "matT (al_Padded cfg eta P z) = al_Padded cfg eta P z"
proof -
  define m where "m = length z div 2 * 2"
  define M where "M = al_Padded cfg eta P z"
  define G where "G = al_Gx_all cfg eta z"
  define Rl where "Rl = al_Rall cfg eta z"
  have n0: "0 < n" using n3 by simp
  have nm0: "0 < n + m" using n3 by simp
  note pp = al_Padded_props[OF P n0, where z = z and cfg = cfg and eta = eta,
      folded m_def M_def G_def]
  have Gm: "is_mat m 3 G" unfolding G_def m_def by (rule is_mat_al_Gx_all)
  have Rm: "is_mat m m Rl" unfolding Rl_def m_def by (rule is_mat_al_Rall)
  have Xm: "is_mat m m (matmul (matmul G (slice2 P 0 3 0 3)) (matT G))"
    using is_mat_matmul_matT[OF Gm, of "matmul G (slice2 P 0 3 0 3)" m] Gm by (simp add: is_mat_def)
  have pe: "P ! a ! b = P ! b ! a" if "a < n" "b < n" for a b
    using symP that unfolding matT_eq_iff[OF P n0] by blast
  have B: "al_block2 cfg eta P z ! i ! j = al_block2 cfg eta P z ! j ! i" if "i < m" "j < m" for i j
  proof -
    have b: "al_block2 cfg eta P z ! i ! j
        = matmul (matmul G (slice2 P 0 3 0 3)) (matT G) ! i ! j + Rl ! i ! j"
      if "i < m" "j < m" for i j
      unfolding al_block2_def Let_def G_def[symmetric] Rl_def[symmetric]
      using that Xm Rm ncols_matT[OF Gm] by (intro nth_mat_add) (simp_all add: is_mat_iff)
    show ?thesis
      unfolding b[OF that] b[OF that(2,1)] al_congruence_entry[OF P n3 Gm that]
        al_congruence_entry[OF P n3 Gm that(2,1)] Rl_def
      using sym_al_congruence_entries[OF P n3 symP, of G i j]
        sym_al_Rall_entries[OF R symR that[unfolded m_def], of eta]
      by simp
  qed
  have "M ! i ! j = M ! j ! i" if i: "i < n + m" and j: "j < n + m" for i j
  proof (cases "i < n")
    case iT: True
    show ?thesis
    proof (cases "j < n")
      case True
      then show ?thesis using pp(2)[OF iT True] pp(2)[OF True iT] pe[OF iT True] by simp
    next
      case False
      then have "j - n < m" "j = n + (j - n)" using j by auto
      then show ?thesis using pp(5)[OF \<open>j - n < m\<close> iT] by metis
    qed
  next
    case iF: False
    then have i': "i - n < m" "i = n + (i - n)" using i by auto
    show ?thesis
    proof (cases "j < n")
      case True
      then show ?thesis using pp(5)[OF i'(1) True] i'(2) by metis
    next
      case False
      then have j': "j - n < m" "j = n + (j - n)" using j by auto
      show ?thesis
        using pp(3)[OF i'(1) j'(1)] pp(3)[OF j'(1) i'(1)] B[OF i'(1) j'(1)] i'(2) j'(2) by metis
    qed
  qed
  then show ?thesis unfolding M_def[symmetric] matT_eq_iff[OF pp(1) nm0] by blast
qed

lemma add_landmarks_returns:
  fixes z :: vec
  assumes R: "is_mat 2 2 (R cfg)" "matT (R cfg) = R cfg" "psd (R cfg)"
    and eta: "3 \<le> length eta"
    and P: "is_mat (length eta) (length eta) P" "matT P = P" "psd P"
    and z: "even (length z)"
  shows "add_landmarks cfg eta P z = Inr (eta @ al_lmnew_all cfg eta z, al_Padded cfg eta P z)"
    and "matT (al_Padded cfg eta P z) = al_Padded cfg eta P z"
    and "psd (al_Padded cfg eta P z)"
proof -
  define n where "n = length eta"
  have Pn: "is_mat n n P" and n3: "3 \<le> n" and n0: "0 < n" using P(1) eta by (auto simp: n_def)
  have lP: "length P = n" using Pn by (simp add: is_mat_def)
  show s: "matT (al_Padded cfg eta P z) = al_Padded cfg eta P z"
    by (rule sym_al_Padded[OF Pn n3 P(2) R(1,2)])
  show p: "psd (al_Padded cfg eta P z)"
    by (rule psd_al_Padded[OF Pn n3 P(2,3) psd_al_Rall[OF R(1,3)]])
  have m: "is_mat (n + length z div 2 * 2) (n + length z div 2 * 2) (al_Padded cfg eta P z)"
    by (rule al_Padded_props(1)[OF Pn n0])
  have l: "length (eta @ al_lmnew_all cfg eta z) = n + length z div 2 * 2"
    by (simp add: length_al_lmnew_all n_def)
  show "add_landmarks cfg eta P z = Inr (eta @ al_lmnew_all cfg eta z, al_Padded cfg eta P z)"
    unfolding add_landmarks_def Let_def l lP
    using eta z n3 Pn m by (simp add: s allclose_refl psd_imp_eigvals_ge0[OF p])
qed

lemma even_length_ravel: "even (length (ravel z))"
  by (simp add: length_ravel)

lemma update_empty_map_returns:
  assumes R: "is_mat 2 2 (R cfg)" "matT (R cfg) = R cfg" "psd (R cfg)"
    and eta: "length eta = 3"
    and P: "is_mat 3 3 P" "matT P = P" "psd P"
  shows "\<exists>eta' P'. update cfg JCBB cho_inv eta P z = Inr (eta', P', 1, replicate (length z) (- 1))"
proof (cases "do_asso cfg \<and> z \<noteq> []")
  case True
  have e: "3 \<le> length eta" and Pm: "is_mat (length eta) (length eta) P" using eta P(1) by simp_all
  note a = add_landmarks_returns[OF R e Pm P(2,3) even_length_ravel[of z]]
  show ?thesis
    unfolding update_empty_map_eq[OF eta]
    using True by (simp add: a allclose_refl psd_imp_eigvals_ge0[OF a(3)])
next
  case False
  then show ?thesis
    unfolding update_empty_map_eq[OF eta]
    by (auto simp: P(2) allclose_refl psd_imp_eigvals_ge0[OF P(3)])
qed

lemma psd_ex_I3: "psd ex_I3"
  unfolding psd_def
proof (intro allI impI)
  fix v :: vec assume "length v = length ex_I3"
  then have "length v = 3" by (simp add: ex_I3_def)
  then obtain x y z where v: "v = [x, y, z]" using vec3 by blast
  have "quad ex_I3 v = dot v v" by (simp add: quad_def matvec_def ex_I3_def v)
  then show "0 \<le> quad ex_I3 v" using dot_self_nonneg[of v] by simp
qed

lemma ex_R_valid: "is_mat 2 2 (R ex_cfg)" "matT (R ex_cfg) = R ex_cfg" "psd (R ex_cfg)"
proof -
  show "is_mat 2 2 (R ex_cfg)" by (simp add: ex_cfg_def is_mat_def)
  show "matT (R ex_cfg) = R ex_cfg"
    by (simp add: ex_cfg_def matT_def col_def ncols_def upt_0_2)
  show "psd (R ex_cfg)"
    unfolding psd_def
  proof (intro allI impI)
    fix v :: vec assume "length v = length (R ex_cfg)"
    then have "length v = 2" by (simp add: ex_cfg_def)
    then obtain x y where v: "v = [x, y]" using vec2 by blast
    have "quad (R ex_cfg) v = dot v v" by (simp add: quad_def matvec_def ex_cfg_def v)
    then show "0 \<le> quad (R ex_cfg) v" using dot_self_nonneg[of v] by simp
  qed
qed

lemma ex_I3_valid: "is_mat (length [0, 0, 0::real]) (length [0, 0, 0::real]) ex_I3"
  by (simp add: ex_I3_def is_mat_def)

text \<open>
  The quadratic form of the predicted covariance, for a state of any dimension: that of
  \<open>P\<close> at the vector transformed by the transposed block-diagonal motion Jacobian, plus
  that of the process noise at the transformed pose part.
\<close>

lemma quad_predict_P:
  fixes P :: mat and w :: vec
  assumes P: "is_mat n n P" and n3: "3 \<le> n" and symP: "matT P = P"
    and Qm: "is_mat 3 3 (Q cfg)" and F: "is_mat 3 3 Fx'" and U: "is_mat 3 3 Fu'"
    and lw: "length w = n"
  shows "quad (predict_P cfg P Fx' Fu') w
       = quad P (matvec (matT Fx') (take 3 w) @ drop 3 w)
         + quad (Q cfg) (matvec (matT Fu') (take 3 w))"
proof -
  define m where "m = n - 3"
  have n: "n = 3 + m" using n3 by (simp add: m_def)
  define M where "M = predict_P cfg P Fx' Fu'"
  define S where "S = slice2 P 0 3 0 3"
  define X where "X = matmul (matmul Fx' S) (matT Fx')"
  define Y where "Y = matmul (matmul Fu' (Q cfg)) (matT Fu')"
  define u where "u = take 3 w"
  define y where "y = matvec (matT Fx') u"
  define V where "V = (\<lambda>j. w ! (3 + j))"
  define tw where "tw = y @ drop 3 w"
  note pp = predict_P_props[OF P n3 F U, where cfg = cfg, folded S_def X_def Y_def M_def]
  have n0: "0 < n" using n3 by simp
  have pe: "P ! a ! b = P ! b ! a" if "a < n" "b < n" for a b
    using symP that unfolding matT_eq_iff[OF P n0] by blast
  have Sm: "is_mat 3 3 S" unfolding S_def by (simp add: slice2_33[OF P n3] is_mat_def)
  have Xm: "is_mat 3 3 X" unfolding X_def by (rule is_mat_congruence[OF F])
  have Ym: "is_mat 3 3 Y" unfolding Y_def by (rule is_mat_congruence[OF U])
  have lu: "length u = 3" using lw n3 by (simp add: u_def)
  obtain u0 u1 u2 where u: "u = [u0, u1, u2]" using vec3[OF lu] by blast
  have un: "w ! 0 = u0" "w ! 1 = u1" "w ! 2 = u2"
    using u unfolding u_def by (metis nth_take nth_Cons_0 zero_less_numeral,
        metis nth_take nth_Cons_0 nth_Cons_Suc One_nat_def one_less_numeral_iff semiring_norm(77),
        metis nth_take nth_Cons_0 nth_Cons_Suc numeral_2_eq_2 lessI numeral_3_eq_3)
  obtain f00 f01 f02 f10 f11 f12 f20 f21 f22
    where Fe: "Fx' = [[f00, f01, f02], [f10, f11, f12], [f20, f21, f22]]"
    by (rule mat33_cases[OF F])
  have ye: "y = [f00 * u0 + f10 * u1 + f20 * u2, f01 * u0 + f11 * u1 + f21 * u2,
                 f02 * u0 + f12 * u1 + f22 * u2]"
    by (simp add: y_def u Fe matvec_def matT_def col_def ncols_def upt_0_3)
  have ly: "length y = 3" by (simp add: ye)
  have ltw: "length tw = n" using ly lw n3 by (simp add: tw_def)
  have twn: "tw ! 0 = y ! 0" "tw ! Suc 0 = y ! Suc 0" "tw ! 2 = y ! 2"
    "\<And>j. j < m \<Longrightarrow> tw ! (3 + j) = V j"
    using ly lw n by (simp_all add: tw_def nth_append V_def)
  have un': "w ! Suc 0 = u1" using un by simp
  \<comment> \<open>the quadratic form of the result, block by block\<close>
  have "quad M w = (\<Sum>i<3 + m. \<Sum>j<3 + m. w ! i * M ! i ! j * w ! j)"
    using quad_sum[OF pp(1) lw] unfolding n .
  also have "\<dots> = (\<Sum>i<3. (\<Sum>j<3. w ! i * M ! i ! j * w ! j) + (\<Sum>j<m. w ! i * M ! i ! (3 + j) * V j))
       + (\<Sum>i<m. (\<Sum>j<3. V i * M ! (3 + i) ! j * w ! j) + (\<Sum>j<m. V i * M ! (3 + i) ! (3 + j) * V j))"
    by (simp add: sum_split V_def)
  also have "\<dots> = (\<Sum>i<3. (\<Sum>j<3. w ! i * (X ! i ! j + Y ! i ! j) * w ! j)
            + (\<Sum>j<m. w ! i * dot (Fx' ! i) [P ! 0 ! (3 + j), P ! 1 ! (3 + j), P ! 2 ! (3 + j)] * V j))
       + (\<Sum>i<m. (\<Sum>j<3. V i * dot [P ! (3 + i) ! 0, P ! (3 + i) ! 1, P ! (3 + i) ! 2] (Fx' ! j) * w ! j)
            + (\<Sum>j<m. V i * P ! (3 + i) ! (3 + j) * V j))"
    using Xm Ym by (simp add: pp(2,3,4,5) n nth_mat_add is_mat_iff)
  finally have qM: "quad M w = (\<Sum>i<3. (\<Sum>j<3. w ! i * (X ! i ! j + Y ! i ! j) * w ! j)
            + (\<Sum>j<m. w ! i * dot (Fx' ! i) [P ! 0 ! (3 + j), P ! 1 ! (3 + j), P ! 2 ! (3 + j)] * V j))
       + (\<Sum>i<m. (\<Sum>j<3. V i * dot [P ! (3 + i) ! 0, P ! (3 + i) ! 1, P ! (3 + i) ! 2] (Fx' ! j) * w ! j)
            + (\<Sum>j<m. V i * P ! (3 + i) ! (3 + j) * V j))" .
  have "quad P tw = (\<Sum>i<3 + m. \<Sum>j<3 + m. tw ! i * P ! i ! j * tw ! j)"
    using quad_sum[OF P ltw] unfolding n .
  also have "\<dots> = (\<Sum>i<3. (\<Sum>j<3. tw ! i * P ! i ! j * tw ! j) + (\<Sum>j<m. tw ! i * P ! i ! (3 + j) * V j))
       + (\<Sum>i<m. (\<Sum>j<3. V i * P ! (3 + i) ! j * tw ! j) + (\<Sum>j<m. V i * P ! (3 + i) ! (3 + j) * V j))"
    by (simp add: sum_split twn)
  finally have qP: "quad P tw = (\<Sum>i<3. (\<Sum>j<3. tw ! i * P ! i ! j * tw ! j) + (\<Sum>j<m. tw ! i * P ! i ! (3 + j) * V j))
       + (\<Sum>i<m. (\<Sum>j<3. V i * P ! (3 + i) ! j * tw ! j) + (\<Sum>j<m. V i * P ! (3 + i) ! (3 + j) * V j))" .
  \<comment> \<open>the pose block\<close>
  have qu: "(\<Sum>i<3. \<Sum>j<3. w ! i * (X ! i ! j + Y ! i ! j) * w ! j) = quad X u + quad Y u"
  proof -
    have "quad X u = (\<Sum>i<3. \<Sum>j<3. u ! i * X ! i ! j * u ! j)" by (rule quad_sum[OF Xm lu])
    moreover have "quad Y u = (\<Sum>i<3. \<Sum>j<3. u ! i * Y ! i ! j * u ! j)" by (rule quad_sum[OF Ym lu])
    moreover have "u ! i = w ! i" if "i < 3" for i using that by (simp add: u_def)
    ultimately show ?thesis by (simp add: sum.distrib algebra_simps)
  qed
  have qx: "quad X u = (\<Sum>i<3. \<Sum>j<3. tw ! i * P ! i ! j * tw ! j)"
  proof -
    have "quad X u = quad S y" unfolding X_def y_def by (rule quad_congruence[OF F Sm lu])
    also have "\<dots> = (\<Sum>i<3. \<Sum>j<3. y ! i * S ! i ! j * y ! j)" by (rule quad_sum[OF Sm ly])
    also have "\<dots> = (\<Sum>i<3. \<Sum>j<3. tw ! i * P ! i ! j * tw ! j)"
      unfolding S_def slice2_33[OF P n3] sum3 by (simp add: twn)
    finally show ?thesis .
  qed
  have qy: "quad Y u = quad (Q cfg) (matvec (matT Fu') u)"
    unfolding Y_def by (rule quad_congruence[OF U Qm lu])
  \<comment> \<open>the cross blocks\<close>
  have c1: "(\<Sum>i<3. \<Sum>j<m. w ! i * dot (Fx' ! i) [P ! 0 ! (3 + j), P ! 1 ! (3 + j), P ! 2 ! (3 + j)] * V j)
      = (\<Sum>i<3. \<Sum>j<m. tw ! i * P ! i ! (3 + j) * V j)"
    unfolding sum3 by (simp add: twn un un' Fe ye sum.distrib sum_distrib_left sum_distrib_right algebra_simps)
  have c2: "(\<Sum>i<m. \<Sum>j<3. V i * dot [P ! (3 + i) ! 0, P ! (3 + i) ! 1, P ! (3 + i) ! 2] (Fx' ! j) * w ! j)
      = (\<Sum>i<m. \<Sum>j<3. V i * P ! (3 + i) ! j * tw ! j)"
    unfolding sum3 by (simp add: twn un un' Fe ye sum.distrib algebra_simps)
  have "quad M w = quad P tw + quad (Q cfg) (matvec (matT Fu') u)"
    unfolding qM qP sum.distrib using qu qx qy c1 c2 by linarith
  then show ?thesis unfolding M_def tw_def y_def u_def .
qed


lemma Fx_transpose_nonzero:
  assumes "Fx x u = Inr Fx'" "length v = 3" "\<exists>a \<in> set v. a \<noteq> 0"
  shows "\<exists>a \<in> set (matvec (matT Fx') v). a \<noteq> 0"
proof -
  obtain a b c where v: "v = [a, b, c]" using vec3[OF assms(2)] by blast
  obtain p q where Fx': "Fx' = [[1, 0, p], [0, 1, q], [0, 0, 1]]"
    using assms(1) by (auto simp: Fx_def Let_def split: if_splits)
  have mv: "matvec (matT Fx') v = [a, b, p * a + q * b + c]"
    by (simp add: Fx' v matvec_def matT_def col_def ncols_def upt_0_3)
  show ?thesis
  proof (rule ccontr)
    assume "\<not> (\<exists>a \<in> set (matvec (matT Fx') v). a \<noteq> 0)"
    then have z: "a = 0" "b = 0" "p * a + q * b + c = 0" by (simp_all add: mv)
    then have "c = 0" by simp
    then show False using assms(3) z by (simp add: v)
  qed
qed

text \<open>The map block \<open>P[3:, 3:]\<close> and the quadratic form of \<open>P\<close> on vectors with zero pose part.\<close>

lemma is_mat_map_block:
  assumes "is_mat n n (P::mat)"
  shows "is_mat (n - 3) (n - 3) (map (drop 3) (drop 3 P))"
  using assms by (auto simp: is_mat_def list_all_length)

lemma nth_map_block:
  assumes "is_mat n n (P::mat)" "3 + i < n" "3 + j < n"
  shows "map (drop 3) (drop 3 P) ! i ! j = P ! (3 + i) ! (3 + j)"
  using assms by (simp add: is_mat_iff)

lemma quad_map_block:
  fixes P :: mat and v :: vec
  assumes P: "is_mat n n P" and n3: "3 \<le> n" and lv: "length v = n - 3"
  shows "quad P ([0, 0, 0] @ v) = quad (map (drop 3) (drop 3 P)) v"
proof -
  define m where "m = n - 3"
  have n: "n = 3 + m" using n3 by (simp add: m_def)
  define w where "w = [0, 0, 0] @ v"
  have lw: "length w = n" using lv n3 by (simp add: w_def)
  have w0: "w ! 0 = 0" "w ! Suc 0 = 0" "w ! 2 = 0" by (simp_all add: w_def)
  have wv: "w ! (3 + j) = v ! j" for j by (simp add: w_def nth_append)
  have "quad P w = (\<Sum>i<3 + m. \<Sum>j<3 + m. w ! i * P ! i ! j * w ! j)"
    using quad_sum[OF P lw] unfolding n .
  also have "\<dots> = (\<Sum>i<m. \<Sum>j<m. v ! i * P ! (3 + i) ! (3 + j) * v ! j)"
    unfolding sum_split sum3 by (simp add: w0 wv)
  also have "\<dots> = (\<Sum>i<m. \<Sum>j<m. v ! i * map (drop 3) (drop 3 P) ! i ! j * v ! j)"
    using nth_map_block[OF P] n by simp
  also have "\<dots> = quad (map (drop 3) (drop 3 P)) v"
    using quad_sum[OF is_mat_map_block[OF P] lv] unfolding m_def by simp
  finally show ?thesis unfolding w_def .
qed

lemma matvec_matT_zero3:
  assumes "is_mat 3 3 (G::mat)"
  shows "matvec (matT G) [0, 0, 0] = [0, 0, 0]"
proof -
  obtain a b c d e f' g h' i where "G = [[a, b, c], [d, e, f'], [g, h', i]]"
    by (rule mat33_cases[OF assms])
  then show ?thesis by (simp add: matvec_def matT_def col_def ncols_def upt_0_3)
qed

lemma quad_zero3:
  assumes "is_mat 3 3 (A::mat)"
  shows "quad A [0, 0, 0] = 0"
proof -
  obtain a b c d e f' g h' i where "A = [[a, b, c], [d, e, f'], [g, h', i]]"
    by (rule mat33_cases[OF assms])
  then show ?thesis by (simp add: quad_def matvec_def)
qed

lemma all_zero3: "length (u::vec) = 3 \<Longrightarrow> \<not> (\<exists>a\<in>set u. a \<noteq> 0) \<Longrightarrow> u = [0, 0, 0]"
  using vec3[of u] by auto

text \<open>
  The predicted covariance is positive semi-definite; it is positive definite when \<open>P\<close>
  is, or when the process noise and the map block \<open>P[3:, 3:]\<close> are, and only if the map
  block is.
\<close>

lemma predict_P_psd:
  fixes P :: mat
  assumes P: "is_mat n n P" "3 \<le> n" "matT P = P" "psd P"
    and Q: "is_mat 3 3 (Q cfg)" "psd (Q cfg)"
    and F: "is_mat 3 3 Fx'" and U: "is_mat 3 3 Fu'"
  shows "psd (predict_P cfg P Fx' Fu')"
  unfolding psd_def
proof (intro allI impI)
  fix w :: vec assume "length w = length (predict_P cfg P Fx' Fu')"
  then have w: "length w = n" using predict_P_props(1)[OF P(1,2) F U] by (simp add: is_mat_def)
  have l1: "length (matvec (matT Fx') (take 3 w) @ drop 3 w) = length P"
    using w P(1,2) F by (simp add: ncols_is_mat is_mat_def)
  have l2: "length (matvec (matT Fu') (take 3 w)) = length (Q cfg)"
    using U Q(1) by (simp add: ncols_is_mat is_mat_def)
  show "0 \<le> quad (predict_P cfg P Fx' Fu') w"
    unfolding quad_predict_P[OF P(1,2,3) Q(1) F U w]
    using P(4) Q(2) l1 l2 by (simp add: psd_def)
qed

lemma predict_P_pd_of_pd:
  fixes P :: mat
  assumes P: "is_mat n n P" "3 \<le> n" "matT P = P" "pd P"
    and Q: "is_mat 3 3 (Q cfg)" "psd (Q cfg)"
    and F: "Fx x u = Inr Fx'" and U: "is_mat 3 3 Fu'"
  shows "pd (predict_P cfg P Fx' Fu')"
  unfolding pd_def
proof (intro allI impI)
  note Fm = is_mat_Fx[OF F]
  fix w :: vec assume "length w = length (predict_P cfg P Fx' Fu') \<and> (\<exists>a\<in>set w. a \<noteq> 0)"
  then have w: "length w = n" "\<exists>a\<in>set w. a \<noteq> 0"
    using predict_P_props(1)[OF P(1,2) Fm U] by (simp_all add: is_mat_def)
  define tw where "tw = matvec (matT Fx') (take 3 w) @ drop 3 w"
  have lu: "length (take 3 w) = 3" using w(1) P(2) by simp
  have ltw: "length tw = length P"
    using w P(1,2) Fm by (simp add: tw_def ncols_is_mat is_mat_def)
  have l2: "length (matvec (matT Fu') (take 3 w)) = length (Q cfg)"
    using U Q(1) by (simp add: ncols_is_mat is_mat_def)
  have nz: "\<exists>a\<in>set tw. a \<noteq> 0"
  proof -
    have "set w = set (take 3 w) \<union> set (drop 3 w)"
      by (metis append_take_drop_id set_append)
    then consider "\<exists>a\<in>set (take 3 w). a \<noteq> 0" | "\<exists>a\<in>set (drop 3 w). a \<noteq> 0"
      using w(2) by auto
    then show ?thesis
    proof cases
      case 1
      then show ?thesis using Fx_transpose_nonzero[OF F lu] by (auto simp: tw_def)
    next
      case 2
      then show ?thesis by (auto simp: tw_def)
    qed
  qed
  have "quad (predict_P cfg P Fx' Fu') w = quad P tw + quad (Q cfg) (matvec (matT Fu') (take 3 w))"
    unfolding tw_def by (rule quad_predict_P[OF P(1,2,3) Q(1) Fm U w(1)])
  moreover have "0 < quad P tw" using P(4) ltw nz by (simp add: pd_def)
  moreover have "0 \<le> quad (Q cfg) (matvec (matT Fu') (take 3 w))"
    using Q(2) l2 by (simp add: psd_def)
  ultimately show "0 < quad (predict_P cfg P Fx' Fu') w" by simp
qed

lemma predict_P_pd_of_map:
  fixes P :: mat
  assumes P: "is_mat n n P" "3 \<le> n" "matT P = P" "psd P" "pd (map (drop 3) (drop 3 P))"
    and Q: "is_mat 3 3 (Q cfg)" "pd (Q cfg)"
    and F: "is_mat 3 3 Fx'" and U: "Fu x u = Inr Fu'"
  shows "pd (predict_P cfg P Fx' Fu')"
  unfolding pd_def
proof (intro allI impI)
  note Um = is_mat_Fu[OF U]
  fix w :: vec assume "length w = length (predict_P cfg P Fx' Fu') \<and> (\<exists>a\<in>set w. a \<noteq> 0)"
  then have w: "length w = n" "\<exists>a\<in>set w. a \<noteq> 0"
    using predict_P_props(1)[OF P(1,2) F Um] by (simp_all add: is_mat_def)
  define tw where "tw = matvec (matT Fx') (take 3 w) @ drop 3 w"
  have lu: "length (take 3 w) = 3" using w(1) P(2) by simp
  have ltw: "length tw = length P"
    using w P(1,2) F by (simp add: tw_def ncols_is_mat is_mat_def)
  have l2: "length (matvec (matT Fu') (take 3 w)) = length (Q cfg)"
    using Um Q(1) by (simp add: ncols_is_mat is_mat_def)
  have q: "quad (predict_P cfg P Fx' Fu') w = quad P tw + quad (Q cfg) (matvec (matT Fu') (take 3 w))"
    unfolding tw_def by (rule quad_predict_P[OF P(1,2,3) Q(1) F Um w(1)])
  have p0: "0 \<le> quad P tw" using P(4) ltw by (simp add: psd_def)
  show "0 < quad (predict_P cfg P Fx' Fu') w"
  proof (cases "\<exists>a\<in>set (take 3 w). a \<noteq> 0")
    case True
    have "0 < quad (Q cfg) (matvec (matT Fu') (take 3 w))"
      using Q(2) l2 Fu_transpose_nonzero[OF U lu True] by (simp add: pd_def)
    then show ?thesis using q p0 by simp
  next
    case False
    then have u0: "take 3 w = [0, 0, 0]" by (rule all_zero3[OF lu])
    have "set w = set (take 3 w) \<union> set (drop 3 w)"
      by (metis append_take_drop_id set_append)
    then have nz: "\<exists>a\<in>set (drop 3 w). a \<noteq> 0" using w(2) False by auto
    have ld: "length (drop 3 w) = n - 3" using w(1) by simp
    have "length (drop 3 w) = length (map (drop 3) (drop 3 P))"
      using ld P(1) by (simp add: is_mat_def)
    then have "0 < quad (map (drop 3) (drop 3 P)) (drop 3 w)"
      using P(5) nz unfolding pd_def by blast
    then have "0 < quad P tw"
      unfolding tw_def u0 matvec_matT_zero3[OF F] quad_map_block[OF P(1,2) ld] .
    moreover have "quad (Q cfg) (matvec (matT Fu') (take 3 w)) = 0"
      unfolding u0 matvec_matT_zero3[OF Um] by (rule quad_zero3[OF Q(1)])
    ultimately show ?thesis using q by simp
  qed
qed

lemma predict_P_pd_map:
  fixes P :: mat
  assumes P: "is_mat n n P" "3 \<le> n" "matT P = P"
    and Q: "is_mat 3 3 (Q cfg)"
    and F: "is_mat 3 3 Fx'" and U: "is_mat 3 3 Fu'"
    and pd: "pd (predict_P cfg P Fx' Fu')"
  shows "pd (map (drop 3) (drop 3 P))"
  unfolding pd_def
proof (intro allI impI)
  fix v :: vec assume "length v = length (map (drop 3) (drop 3 P)) \<and> (\<exists>a\<in>set v. a \<noteq> 0)"
  then have v: "length v = n - 3" "\<exists>a\<in>set v. a \<noteq> 0" using P(1) by (simp_all add: is_mat_def)
  define w where "w = [0, 0, 0] @ v"
  have lw: "length w = n" using v(1) P(2) by (simp add: w_def)
  have t: "take 3 w = [0, 0, 0]" "drop 3 w = v" by (simp_all add: w_def)
  have nz: "\<exists>a\<in>set w. a \<noteq> 0" using v(2) by (auto simp: w_def)
  have "length w = length (predict_P cfg P Fx' Fu')"
    using lw predict_P_props(1)[OF P(1,2) F U] by (simp add: is_mat_def)
  then have "0 < quad (predict_P cfg P Fx' Fu') w" using pd nz unfolding pd_def by blast
  then have "0 < quad P ([0, 0, 0] @ v) + quad (Q cfg) [0, 0, 0]"
    unfolding quad_predict_P[OF P(1,2,3) Q F U lw] t matvec_matT_zero3[OF F]
      matvec_matT_zero3[OF U] .
  then show "0 < quad (map (drop 3) (drop 3 P)) v"
    unfolding quad_map_block[OF P(1,2) v(1)] quad_zero3[OF Q] by simp
qed

lemma matT_ex_I5: "matT ex_I5 = ex_I5"
  by (simp add: ex_I5_def matT_def col_def ncols_def upt_0_5)

lemma pd_ex_I5: "pd ex_I5"
  unfolding pd_def
proof (intro allI impI)
  fix v :: vec assume a: "length v = length ex_I5 \<and> (\<exists>a\<in>set v. a \<noteq> 0)"
  then have "length v = 5" by (simp add: ex_I5_def)
  then obtain x y z s t where v: "v = [x, y, z, s, t]" using vec5 by blast
  have "quad ex_I5 v = dot v v" by (simp add: quad_def matvec_def ex_I5_def v)
  then show "0 < quad ex_I5 v" using dot_self_pos[of v] a by simp
qed

lemma psd_ex_Pm: "psd ex_Pm"
  unfolding psd_def
proof (intro allI impI)
  fix v :: vec assume "length v = length ex_Pm"
  then have "length v = 5" by (simp add: ex_Pm_def)
  then obtain x y z s t where v: "v = [x, y, z, s, t]" using vec5 by blast
  show "0 \<le> quad ex_Pm v" by (simp add: quad_def matvec_def ex_Pm_def v)
qed

lemma matT_ex_Pm: "matT ex_Pm = ex_Pm"
  by (simp add: ex_Pm_def matT_def col_def ncols_def upt_0_5)

lemma pd_map_ex_Pm: "pd (map (drop 3) (drop 3 ex_Pm))"
proof -
  have m: "map (drop 3) (drop 3 ex_Pm) = [[1, 0], [0, 1]]" by (simp add: ex_Pm_def)
  show ?thesis
    unfolding pd_def m
  proof (intro allI impI)
    fix v :: vec assume a: "length v = length [[1, 0], [0, 1::real]] \<and> (\<exists>a\<in>set v. a \<noteq> 0)"
    then have "length v = 2" by simp
    then obtain x y where v: "v = [x, y]" using vec2 by blast
    have "quad [[1, 0], [0, 1]] v = dot v v" by (simp add: quad_def matvec_def v)
    then show "0 < quad [[1, 0], [0, 1]] v" using dot_self_pos[of v] a by simp
  qed
qed

lemma predict_P_ex_Pm: "predict_P ex_cfg ex_Pm ex_I3 ex_I3 = ex_I5"
proof -
  have s: "slice2 ex_Pm 0 3 0 3 = ex_Z3" by (simp add: ex_Pm_def ex_Z3_def slice2_def)
  have x: "matmul (matmul ex_I3 ex_Z3) (matT ex_I3) = ex_Z3"
    by (simp add: ex_I3_def ex_Z3_def matmul_def matT_def col_def ncols_def upt_0_3)
  have a: "mat_add ex_Z3 ex_I3 = ex_I3"
    by (simp add: ex_I3_def ex_Z3_def mat_add_def vec_add_def)
  have p1: "set_block ex_Pm 0 0 ex_I3 = ex_I5"
    by (simp add: set_block_def set_row_part_def ex_Pm_def ex_I3_def ex_I5_def upt_0_5)
  have m: "matmul ex_I3 (map (drop 3) (take 3 ex_I5)) = [[0, 0], [0, 0], [0, 0]]"
    by (simp add: ex_I3_def ex_I5_def matmul_def col_def ncols_def upt_0_2)
  have p2: "set_block ex_I5 0 3 [[0, 0], [0, 0], [0, 0]] = ex_I5"
    by (simp add: set_block_def set_row_part_def ex_I5_def upt_0_5)
  have c: "matmul (map (take 3) (drop 3 ex_I5)) (matT ex_I3) = [[0, 0, 0], [0, 0, 0]]"
    by (simp add: ex_I3_def ex_I5_def matmul_def matT_def col_def ncols_def upt_0_3)
  have p3: "set_block ex_I5 3 0 [[0, 0, 0], [0, 0, 0]] = ex_I5"
    by (simp add: set_block_def set_row_part_def ex_I5_def upt_0_5)
  show ?thesis
    unfolding predict_P_def Let_def ex_Q s x ex_noise a p1 m p2 c p3 by (rule refl)
qed

lemma not_pd_ex_P0_pred: "\<not> pd ex_P0_pred"
proof
  assume "pd ex_P0_pred"
  moreover have "length [0, 0, 0, 1, 0::real] = length ex_P0_pred
      \<and> (\<exists>a\<in>set [0, 0, 0, 1, 0::real]. a \<noteq> 0)"
    by (simp add: ex_P0_pred_def)
  ultimately have "0 < quad ex_P0_pred [0, 0, 0, 1, 0]"
    unfolding pd_def by blast
  then show False by (simp add: quad_def matvec_def ex_P0_pred_def)
qed

text \<open>
  The value of \<open>predict\<close> on a symmetric covariance of the dimension of the state: the
  computed covariance is symmetric, so only the two tests on the eigenvalues decide
  between returning and the assertion error.
\<close>

lemma predict_eq:
  assumes Q: "is_mat 3 3 (Q cfg)" "matT (Q cfg) = Q cfg"
    and P: "is_mat (length eta) (length eta) P" "matT P = P"
    and l: "3 \<le> length eta"
    and xp: "f (take 3 eta) z_odo = Inr xpred"
    and F: "Fx (take 3 eta) z_odo = Inr Fx'" and U: "Fu (take 3 eta) z_odo = Inr Fu'"
  shows "predict ev cfg eta P z_odo =
           (if all_ge0 ev P \<and> all_gt0 ev (predict_P cfg P Fx' Fu')
            then Inr (xpred @ drop 3 eta, predict_P cfg P Fx' Fu') else Inl AssertionError)"
    and "matT (predict_P cfg P Fx' Fu') = predict_P cfg P Fx' Fu'"
    and "is_mat (length (xpred @ drop 3 eta)) (length (xpred @ drop 3 eta)) (predict_P cfg P Fx' Fu')"
proof -
  note Fm = is_mat_Fx[OF F] and Um = is_mat_Fu[OF U]
  have lx: "length xpred = 3" using xp by (auto simp: f_def Let_def split: if_splits)
  show s: "matT (predict_P cfg P Fx' Fu') = predict_P cfg P Fx' Fu'"
    by (rule predict_P_sym[OF P(1) l P(2) Q Fm Um])
  show m: "is_mat (length (xpred @ drop 3 eta)) (length (xpred @ drop 3 eta)) (predict_P cfg P Fx' Fu')"
    using predict_P_props(1)[OF P(1) l Fm Um, of cfg] lx l by simp
  show "predict ev cfg eta P z_odo =
           (if all_ge0 ev P \<and> all_gt0 ev (predict_P cfg P Fx' Fu')
            then Inr (xpred @ drop 3 eta, predict_P cfg P Fx' Fu') else Inl AssertionError)"
    using P(1) m by (simp add: predict_def P(2) allclose_refl xp F U Let_def s)
qed
section \<open>Properties of the motion model\<close>

text \<open>
  C1. The claim: \<open>f\<close> returns the rigid-body composition, with the lateral displacement
  entering the new y through the cosine of the heading. At the pose (0, 0, 0) and the
  odometry (0, 1, 0) (one unit sideways) the source returns (0, 0, 0), since it multiplies
  the lateral displacement by the sine in both rows, where the composition is (0, 1, 0).
\<close>

theorem f_lateral_uses_sine:
  "f [0, 0, 0] [0, 1, 0] = Inr [0, 0, 0] \<and> f_rigid_body [0, 0, 0] [0, 1, 0] = [0, 1, 0]"
  by (simp add: f_def f_rigid_body_def wrapToPi_0)

text \<open>
  The second half of the same defect: the sum of the two wrapped headings is returned as
  it is. From the heading 2 with the increment 2 the source returns 4, outside
  \<open>(-pi, pi]\<close>.
\<close>

lemma f_heading_not_wrapped:
  "f [0, 0, 2] [0, 0, 2] = Inr [0, 0, 4] \<and> pi < 4"
proof -
  have "wrapToPi 2 = 2"
    using pi_ge_two pi_gt_zero by (intro wrapToPi_id) auto
  then show ?thesis using pi_less_4 by (simp add: f_def)
qed

text \<open>
  C2. The claim: \<open>Fx\<close> and \<open>Fu\<close> are the Jacobians of \<open>f\<close>. At the pose (0, 0, 0) the
  new y that \<open>f\<close> returns does not depend on the lateral displacement \<open>v\<close> at all (its
  factor is \<open>sin 0\<close>), so the partial derivative of that component is 0, and \<open>Fu\<close> has
  1 in that place (row 1, column 1).
\<close>

theorem Fu_not_jacobian_of_f:
  "((\<lambda>v. projr (f [0, 0, 0] [0, v, 0]) ! 1) has_real_derivative 0) (at 1)
   \<and> projr (Fu [0, 0, 0] [0, 1, 0]) ! 1 ! 1 = 1"
  by (simp add: f_def Fu_def wrapToPi_0)

text \<open>The heading-increment row of \<open>Fu\<close> is the unit vector (0, 0, 1).\<close>

lemma Fu_heading_row: "Fu x u = Inr M \<Longrightarrow> M ! 2 = [0, 0, 1]"
  by (auto simp: Fu_def Let_def split: if_splits)

text \<open>
  \<open>Fx\<close> and \<open>Fu\<close> hold the partial derivatives of the position rows of the rigid-body
  composition, with respect to the heading and to the two displacements: they are the
  Jacobians of the composition the docstrings mean, which \<open>f\<close> misses by the sine in its
  second row.
\<close>

lemma Fx_jacobian_of_rigid_body:
  "((\<lambda>p. f_rigid_body [x, y, p] [u, v, phi] ! 0) has_real_derivative
      projr (Fx [x, y, psi] [u, v, phi]) ! 0 ! 2) (at psi)"
  "((\<lambda>p. f_rigid_body [x, y, p] [u, v, phi] ! 1) has_real_derivative
      projr (Fx [x, y, psi] [u, v, phi]) ! 1 ! 2) (at psi)"
  by (auto simp: f_rigid_body_def Fx_def Let_def intro!: derivative_eq_intros)

lemma Fu_jacobian_of_rigid_body:
  "((\<lambda>a. f_rigid_body [x, y, psi] [a, v, phi] ! 0) has_real_derivative
      projr (Fu [x, y, psi] [u, v, phi]) ! 0 ! 0) (at u)"
  "((\<lambda>a. f_rigid_body [x, y, psi] [u, a, phi] ! 0) has_real_derivative
      projr (Fu [x, y, psi] [u, v, phi]) ! 0 ! 1) (at v)"
  "((\<lambda>a. f_rigid_body [x, y, psi] [a, v, phi] ! 1) has_real_derivative
      projr (Fu [x, y, psi] [u, v, phi]) ! 1 ! 0) (at u)"
  "((\<lambda>a. f_rigid_body [x, y, psi] [u, a, phi] ! 1) has_real_derivative
      projr (Fu [x, y, psi] [u, v, phi]) ! 1 ! 1) (at v)"
  by (auto simp: f_rigid_body_def Fu_def Let_def intro!: derivative_eq_intros)

section \<open>Properties of the measurement Jacobian\<close>

text \<open>
  C7. For a state with \<open>L\<close> landmarks \<open>h_jac\<close> returns a matrix with \<open>2L\<close> rows and
  \<open>3 + 2L\<close> columns, and in the two rows of landmark \<open>i\<close> every entry outside the pose
  columns 0 to 2 and outside the columns \<open>3 + 2i\<close> and \<open>3 + 2i + 1\<close> of that landmark is
  the exact zero the array was allocated with.
\<close>

theorem h_jac_block_sparse:
  assumes "length eta = 3 + 2 * L"
  shows "\<exists>H. h_jac cfg eta = Inr H \<and> is_mat (2 * L) (3 + 2 * L) H
     \<and> (\<forall>r<2 * L. \<forall>c<3 + 2 * L. 3 \<le> c \<and> (c - 3) div 2 \<noteq> r div 2 \<longrightarrow> H ! r ! c = Fin 0)"
  using h_jac_entries[OF assms, of cfg] by (auto simp: hj_entry_def np_zero_Fin)

text \<open>An instance with two landmarks: entries of landmark 0's rows in landmark 1's columns, and the reverse.\<close>

theorem h_jac_block_sparse_witness:
  "length [0, 0, 0, 1, 0, 0, 1::real] = 3 + 2 * 2
   \<and> (\<exists>H. h_jac ex_cfg [0, 0, 0, 1, 0, 0, 1] = Inr H \<and> is_mat 4 7 H
          \<and> H ! 0 ! 5 = Fin 0 \<and> H ! 2 ! 3 = Fin 0)"
proof -
  have l: "length [0, 0, 0, 1, 0, 0, 1::real] = 3 + 2 * 2" by simp
  obtain H where H: "h_jac ex_cfg [0, 0, 0, 1, 0, 0, 1] = Inr H" "is_mat (2 * 2) (3 + 2 * 2) H"
    "\<forall>r<2 * 2. \<forall>c<3 + 2 * 2. 3 \<le> c \<and> (c - 3) div 2 \<noteq> r div 2 \<longrightarrow> H ! r ! c = Fin 0"
    using h_jac_block_sparse[OF l, of ex_cfg] by blast
  have "H ! 0 ! 5 = Fin 0" "H ! 2 ! 3 = Fin 0" using H(3) by simp_all
  then show ?thesis using H(1,2) l by simp
qed

text \<open>
  C10. \<open>h_jac\<close> has no guard on the predicted range. For every landmark that lies at
  the position of the sensor the range is 0, the function still returns a matrix, and
  the ten entries of that landmark's blocks are NaN (the quotients \<open>0/0\<close>). The returned
  matrix is finite exactly when no landmark lies at the position of the sensor.
\<close>

theorem h_jac_zero_range:
  assumes "config_ok cfg" "length eta = 3 + 2 * L"
  shows "\<exists>H. h_jac cfg eta = Inr H
     \<and> (\<forall>i<L. landmark eta i = sensor_position cfg eta \<longrightarrow>
            hj_zpred_r cfg eta i = 0
          \<and> (\<forall>r \<in> {2 * i, 2 * i + 1}. \<forall>c \<in> {0, 1, 2, 3 + 2 * i, 3 + 2 * i + 1}. H ! r ! c = NaN))
     \<and> (list_all (list_all is_fin) H \<longleftrightarrow> (\<forall>i<L. landmark eta i \<noteq> sensor_position cfg eta))"
proof -
  obtain H where H: "h_jac cfg eta = Inr H" "is_mat (2 * L) (3 + 2 * L) H"
    and ent: "\<And>r c. r < 2 * L \<Longrightarrow> c < 3 + 2 * L \<Longrightarrow> H ! r ! c = hj_entry cfg eta r c"
    using h_jac_entries[OF assms(2), of cfg] by blast
  have len: "3 \<le> length eta" "2 \<le> length eta" using assms(2) by simp_all
  have off: "length (sensor_offset cfg) = 2" using assms(1) by (simp add: config_ok_def)
  note zr = zero_range_iff[OF len(1) off]
  have nan: "hj_zpred_r cfg eta i = 0
          \<and> (\<forall>r \<in> {2 * i, 2 * i + 1}. \<forall>c \<in> {0, 1, 2, 3 + 2 * i, 3 + 2 * i + 1}. H ! r ! c = NaN)"
    if i: "i < L" and co: "landmark eta i = sensor_position cfg eta" for i
  proof -
    have z: "hj_zpred_r cfg eta i = 0" using zr co by simp
    have "H ! r ! c = NaN" if "r \<in> {2 * i, 2 * i + 1}" "c \<in> {0, 1, 2, 3 + 2 * i, 3 + 2 * i + 1}" for r c
    proof -
      have rd: "r div 2 = i" "r < 2 * L" using that(1) i by auto
      have c: "c < 3 + 2 * L" "c < 3 \<or> (c - 3) div 2 = r div 2" using that(2) i rd by auto
      have "hj_entry cfg eta r c = NaN"
        using hj_entry_nan[OF len(2) _ c(2), of cfg] z rd by simp
      then show ?thesis using ent[OF rd(2) c(1)] by simp
    qed
    then show ?thesis using z by blast
  qed
  have fin: "list_all (list_all is_fin) H \<longleftrightarrow> (\<forall>i<L. landmark eta i \<noteq> sensor_position cfg eta)"
  proof
    assume a: "list_all (list_all is_fin) H"
    show "\<forall>i<L. landmark eta i \<noteq> sensor_position cfg eta"
    proof (intro allI impI notI)
      fix i assume i: "i < L" and co: "landmark eta i = sensor_position cfg eta"
      have "H ! (2 * i) ! 0 = NaN" using nan[OF i co] by simp
      moreover have "2 * i < length H" "0 < length (H ! (2 * i))"
        using H(2) i by (auto simp: is_mat_iff)
      moreover have "list_all is_fin (H ! (2 * i))"
        using a \<open>2 * i < length H\<close> by (simp add: list_all_length)
      ultimately have "is_fin NaN" by (metis list_all_length)
      then show False by (simp add: is_fin_def)
    qed
  next
    assume a: "\<forall>i<L. landmark eta i \<noteq> sensor_position cfg eta"
    have "is_fin (H ! r ! c)" if "r < 2 * L" "c < 3 + 2 * L" for r c
    proof -
      have "r div 2 < L" using that(1) by auto
      then have "hj_zpred_r cfg eta (r div 2) \<noteq> 0" using a zr by simp
      then show ?thesis using hj_entry_fin[OF len(2)] ent[OF that] by simp
    qed
    then show "list_all (list_all is_fin) H"
      using H(2) by (auto simp: list_all_length is_mat_iff)
  qed
  show ?thesis using H(1) nan fin by blast
qed

text \<open>An instance: the pose (0, 0, 0), no sensor offset, one landmark at the origin.\<close>

theorem h_jac_zero_range_witness:
  "config_ok ex_cfg \<and> length [0, 0, 0, 0, 0::real] = 3 + 2 * 1
   \<and> landmark [0, 0, 0, 0, 0] 0 = sensor_position ex_cfg [0, 0, 0, 0, 0]
   \<and> (\<exists>H. h_jac ex_cfg [0, 0, 0, 0, 0] = Inr H \<and> H ! 0 ! 3 = NaN
          \<and> \<not> list_all (list_all is_fin) H)"
proof -
  have c: "config_ok ex_cfg" by (simp add: config_ok_def ex_cfg_def is_mat_def)
  have l: "length [0, 0, 0, 0, 0::real] = 3 + 2 * 1" by simp
  have s: "landmark [0, 0, 0, 0, 0] 0 = sensor_position ex_cfg [0, 0, 0, 0, 0]"
    by (simp add: landmark_def sensor_position_def ex_cfg_def vec_add_def matvec_def rotmat2d_def
        numeral_2_eq_2)
  obtain H where H: "h_jac ex_cfg [0, 0, 0, 0, 0] = Inr H"
    "\<forall>i<1. landmark [0, 0, 0, 0, 0] i = sensor_position ex_cfg [0, 0, 0, 0, 0] \<longrightarrow>
            hj_zpred_r ex_cfg [0, 0, 0, 0, 0] i = 0
          \<and> (\<forall>r \<in> {2 * i, 2 * i + 1}. \<forall>c \<in> {0, 1, 2, 3 + 2 * i, 3 + 2 * i + 1}. H ! r ! c = NaN)"
    "list_all (list_all is_fin) H
       \<longleftrightarrow> (\<forall>i<1. landmark [0, 0, 0, 0, 0] i \<noteq> sensor_position ex_cfg [0, 0, 0, 0, 0])"
    using h_jac_zero_range[OF c l] by blast
  have "H ! 0 ! 3 = NaN" using H(2) s by simp
  moreover have "\<not> list_all (list_all is_fin) H" using H(3) s by simp
  ultimately show ?thesis using c l s H(1) by blast
qed

section \<open>Properties of the state augmentation\<close>

text \<open>
  Whenever \<open>add_landmarks\<close> returns, for a batch \<open>z\<close> of \<open>len(z) / 2\<close>
  measurements: \<open>z\<close> has even length, the new state is the old one followed by two
  entries per measurement, the old covariance is square of the dimension of the old
  state, the new one is square with as many more rows and columns, its top-left block of
  the old dimension is the old covariance, and the number of landmarks grows by the number
  of measurements.
\<close>

lemma add_landmarks_grows_state_if_returns:
  assumes "add_landmarks cfg eta P z = Inr (eta', P')"
  shows "length z = 2 * (length z div 2)
     \<and> length eta' = length eta + 2 * (length z div 2)
     \<and> take (length eta) eta' = eta
     \<and> is_mat (length eta) (length eta) P
     \<and> is_mat (length eta + 2 * (length z div 2)) (length eta + 2 * (length z div 2)) P'
     \<and> slice2 P' 0 (length eta) 0 (length eta) = P
     \<and> (int (length eta') - 3) div 2 = (int (length eta) - 3) div 2 + int (length z div 2)"
proof -
  define n where "n = length eta"
  define k2 where "k2 = length z div 2 * 2"
  note d = add_landmarks_InrD[OF assms]
  have P: "is_mat n n P" and n0: "0 < n" using d(2,4) by (auto simp: n_def)
  note pp = al_Padded_props[OF P n0, where z = z and cfg = cfg and eta = eta, folded k2_def d(6)]
  have len': "length eta' = n + k2"
    by (simp add: d(5) length_al_lmnew_all k2_def n_def)
  have sl: "slice2 P' 0 (0 + n) 0 (0 + n) = P"
  proof (rule slice2_eqI[OF P])
    show "0 + n \<le> length P'" using pp(1) by (simp add: is_mat_def)
    show "0 + n \<le> length (P' ! (0 + i))" if "i < n" for i
      using is_mat_nth[OF pp(1), of i] that by simp
    show "P' ! (0 + i) ! (0 + j) = P ! i ! j" if "i < n" "j < n" for i j
      using pp(2)[OF that] by simp
  qed
  have z: "length z = 2 * (length z div 2)" using d(1) by presburger
  have "take n eta' = eta" by (simp add: d(5) n_def)
  then show ?thesis
    using z len' P pp(1) sl by (simp add: n_def[symmetric] k2_def mult.commute)
qed

text \<open>
  C4. Let the measurement noise \<open>R\<close> be a symmetric positive semi-definite 2x2 matrix,
  the state hold a pose, and its covariance \<open>P\<close> be symmetric positive semi-definite of
  the dimension of the state. For every batch \<open>z\<close> of \<open>k\<close> measurements
  \<open>add_landmarks\<close> returns a state \<open>eta'\<close> of length \<open>len(eta) + 2k\<close> that starts
  with \<open>eta\<close>, and a covariance whose two dimensions are \<open>len(eta) + 2k\<close> and whose
  top-left block of the old dimension is \<open>P\<close>; the number of landmarks has grown by \<open>k\<close>.
\<close>

theorem add_landmarks_grows_state:
  fixes z :: vec
  assumes "is_mat 2 2 (R cfg)" "matT (R cfg) = R cfg" "psd (R cfg)"
    and "3 \<le> length eta"
    and "is_mat (length eta) (length eta) P" "matT P = P" "psd P"
    and "length z = 2 * k"
  shows "\<exists>eta' P'. add_landmarks cfg eta P z = Inr (eta', P')
     \<and> length eta' = length eta + 2 * k
     \<and> take (length eta) eta' = eta
     \<and> is_mat (length eta + 2 * k) (length eta + 2 * k) P'
     \<and> slice2 P' 0 (length eta) 0 (length eta) = P
     \<and> (int (length eta') - 3) div 2 = (int (length eta) - 3) div 2 + int k"
proof -
  have ev: "even (length z)" and k: "length z div 2 = k" using assms(8) by simp_all
  note r = add_landmarks_returns(1)[OF assms(1-7) ev]
  show ?thesis
    using add_landmarks_grows_state_if_returns[OF r] r by (simp add: k)
qed

text \<open>An instance: the pose (0, 0, 0) with unit covariance and the measurement (2, 0).\<close>

theorem add_landmarks_grows_state_witness:
  "is_mat 2 2 (R ex_cfg) \<and> matT (R ex_cfg) = R ex_cfg \<and> psd (R ex_cfg)
   \<and> 3 \<le> length [0, 0, 0::real]
   \<and> is_mat (length [0, 0, 0::real]) (length [0, 0, 0::real]) ex_I3 \<and> matT ex_I3 = ex_I3 \<and> psd ex_I3
   \<and> length [2, 0::real] = 2 * 1
   \<and> (\<exists>eta' P'. add_landmarks ex_cfg [0, 0, 0] ex_I3 [2, 0] = Inr (eta', P')
         \<and> length eta' = 5 \<and> is_mat 5 5 P' \<and> slice2 P' 0 3 0 3 = ex_I3)"
proof -
  have l: "3 \<le> length [0, 0, 0::real]" "length [2, 0::real] = 2 * 1" by simp_all
  note th = add_landmarks_grows_state[OF ex_R_valid l(1) ex_I3_valid matT_ex_I3 psd_ex_I3 l(2)]
  have n: "length [0, 0, 0::real] = 3" "(3::nat) + 2 * 1 = 5" by simp_all
  from th obtain eta' P' where r: "add_landmarks ex_cfg [0, 0, 0] ex_I3 [2, 0] = Inr (eta', P')"
    "length eta' = length [0, 0, 0::real] + 2 * 1"
    "is_mat (length [0, 0, 0::real] + 2 * 1) (length [0, 0, 0::real] + 2 * 1) P'"
    "slice2 P' 0 (length [0, 0, 0::real]) 0 (length [0, 0, 0::real]) = ex_I3"
    by blast
  have "length eta' = 5 \<and> is_mat 5 5 P' \<and> slice2 P' 0 3 0 3 = ex_I3"
    using r(2,3,4) unfolding n by blast
  then show ?thesis using ex_R_valid l ex_I3_valid matT_ex_I3 psd_ex_I3 r(1) by blast
qed

text \<open>
  C5, as the source computes it. For the single measurement (range 2, bearing 0), a state
  whose pose is (0, 0, 0) and no sensor offset, the new landmark is appended at (2, 0), and
  its self-covariance block in the returned covariance is
  \<open>Gx P[0:3, 0:3] Gx^T + Gz R Gz^T\<close> with \<open>Gx = [[1, 0, 0], [0, 1, 2]]\<close> and
  \<open>Gz = [[1, 0], [0, 2]]\<close>: the term of the pose covariance is part of it.
\<close>

theorem add_landmarks_single_measurement:
  assumes "sensor_offset cfg = [0, 0]" "take 3 eta = [0, 0, 0]"
    "add_landmarks cfg eta P [2, 0] = Inr (eta', P')"
  shows "eta' = eta @ [2, 0]
     \<and> slice2 P' (length eta) (length eta + 2) (length eta) (length eta + 2)
         = mat_add (matmul (matmul (al_Gx cfg eta [2, 0] 0) (slice2 P 0 3 0 3))
                      (matT (al_Gx cfg eta [2, 0] 0)))
             (matmul (matmul (al_Gz eta [2, 0] 0) (R cfg)) (matT (al_Gz eta [2, 0] 0)))
     \<and> al_Gx cfg eta [2, 0] 0 = [[1, 0, 0], [0, 1, 2]]
     \<and> al_Gz eta [2, 0] 0 = [[1, 0], [0, 2]]"
proof -
  note d = add_landmarks_InrD[OF assms(3)]
  note b = single_measurement_blocks[OF assms(1,2)]
  define n where "n = length eta"
  have P: "is_mat n n P" and n0: "0 < n" using d(2,4) by (auto simp: n_def)
  have k2: "length [2, 0::real] div 2 * 2 = 2" by simp
  note pp = al_Padded_props[OF P n0, where z = "[2, 0]" and cfg = cfg and eta = eta,
      folded d(6), unfolded k2]
  have B: "is_mat 2 2 (al_block2 cfg eta P [2, 0])"
    using is_mat_al_block2[of "[2, 0]" cfg eta P] by simp
  have "slice2 P' n (n + 2) n (n + 2) = al_block2 cfg eta P [2, 0]"
  proof (rule slice2_eqI[OF B])
    show "n + 2 \<le> length P'" using pp(1) by (simp add: is_mat_def)
    show "n + 2 \<le> length (P' ! (n + i))" if "i < 2" for i
      using is_mat_nth[OF pp(1), of "n + i"] that by simp
    show "P' ! (n + i) ! (n + j) = al_block2 cfg eta P [2, 0] ! i ! j" if "i < 2" "j < 2" for i j
      using pp(3)[OF that] .
  qed
  moreover have "al_block2 cfg eta P [2, 0]
      = mat_add (matmul (matmul (al_Gx cfg eta [2, 0] 0) (slice2 P 0 3 0 3))
                      (matT (al_Gx cfg eta [2, 0] 0)))
             (matmul (matmul (al_Gz eta [2, 0] 0) (R cfg)) (matT (al_Gz eta [2, 0] 0)))"
    by (simp add: al_block2_def Let_def b(4,5) al_Gz_c_def)
  ultimately show ?thesis using d(5) b(1,2,3) by (simp add: n_def)
qed

text \<open>An instance: unit pose covariance and unit measurement noise; the block is diag(2, 9).\<close>

theorem add_landmarks_single_measurement_witness:
  "sensor_offset ex_cfg = [0, 0] \<and> take 3 [0, 0, 0::real] = [0, 0, 0]
   \<and> add_landmarks ex_cfg [0, 0, 0] [[1, 0, 0], [0, 1, 0], [0, 0, 1]] [2, 0] = Inr ([0, 0, 0, 2, 0], ex_Padded)
   \<and> slice2 ex_Padded 3 5 3 5 = [[2, 0], [0, 9]]"
proof -
  have o: "sensor_offset ex_cfg = [0, 0]" by (simp add: ex_cfg_def)
  have t: "take 3 [0, 0, 0::real] = [0, 0, 0]" by simp
  have R: "R ex_cfg = [[1, 0], [0, 1]]" by (simp add: ex_cfg_def)
  have l5: "length [0, 0, 0::real] + 2 = 5" by simp
  have l3: "length [0, 0, 0::real] = 3" by simp
  note th = add_landmarks_single_measurement[OF o t add_landmarks_example, unfolded l5 l3]
  have gx: "al_Gx ex_cfg [0, 0, 0] [2, 0] 0 = [[1, 0, 0], [0, 1, 2]]"
    and gz: "al_Gz [0, 0, 0] [2, 0] 0 = [[1, 0], [0, 2]]"
    using th by blast+
  have s: "slice2 [[1, 0, 0], [0, 1, 0], [0, 0, 1::real]] 0 3 0 3 = [[1, 0, 0], [0, 1, 0], [0, 0, 1]]"
    by (simp add: slice2_def)
  have m1: "matmul (matmul [[1, 0, 0], [0, 1, 2]] [[1, 0, 0], [0, 1, 0], [0, 0, 1]]) (matT [[1, 0, 0], [0, 1, 2::real]])
      = [[1, 0], [0, 5]]"
    by (simp add: matmul_def matT_def col_def ncols_def upt_0_2 upt_0_3)
  have m2: "matmul (matmul [[1, 0], [0, 2]] [[1, 0], [0, 1]]) (matT [[1, 0], [0, 2::real]])
      = [[1, 0], [0, 4]]"
    by (simp add: matmul_def matT_def col_def ncols_def upt_0_2)
  have m3: "mat_add [[1, 0], [0, 5]] [[1, 0], [0, 4::real]] = [[2, 0], [0, 9]]"
    by (simp add: mat_add_def vec_add_def)
  have "slice2 ex_Padded 3 5 3 5 = [[2, 0], [0, 9]]"
    using th l5 unfolding gx gz R s m1 m2 m3 l3 by metis
  then show ?thesis using o t add_landmarks_example by blast
qed

text \<open>
  C5 as stated (the block equals \<open>Gz R Gz^T\<close>) fails at the same input: \<open>Gz R Gz^T\<close>
  is diag(1, 4) there, and the block of the returned covariance is diag(2, 9).
\<close>

theorem add_landmarks_self_covariance_counterexample:
  "add_landmarks ex_cfg [0, 0, 0] [[1, 0, 0], [0, 1, 0], [0, 0, 1]] [2, 0] = Inr ([0, 0, 0, 2, 0], ex_Padded)
   \<and> slice2 ex_Padded 3 5 3 5 = [[2, 0], [0, 9]]
   \<and> al_Gz_c ex_cfg [0, 0, 0] [2, 0] 0 = [[1, 0], [0, 4]]
   \<and> slice2 ex_Padded 3 5 3 5 \<noteq> al_Gz_c ex_cfg [0, 0, 0] [2, 0] 0"
  by (simp add: add_landmarks_example ex_Gz_c) (simp add: slice2_def ex_Padded_def)

section \<open>Properties of the update\<close>

text \<open>
  For a state without landmarks (\<open>eta\<close> of length 3), whenever \<open>update\<close> returns:
  every entry of the association vector is \<open>-1\<close>, one per measurement, the NIS is 1, and
  the returned state is what \<open>add_landmarks\<close> makes of the unchanged \<open>(eta, P)\<close> and all
  the measurements when association is enabled and there is a measurement, and is
  \<open>(eta, P)\<close> itself otherwise.
\<close>

lemma update_empty_map_if_returns:
  assumes "length eta = 3" "update cfg JCBB cho_inv eta P z = Inr (eta', P', NIS, a)"
  shows "a = replicate (length z) (- 1) \<and> NIS = 1
     \<and> (if do_asso cfg \<and> z \<noteq> [] then add_landmarks cfg eta P (ravel z) = Inr (eta', P')
         else eta' = eta \<and> P' = P)"
  using assms(2) unfolding update_empty_map_eq[OF assms(1)]
  by (auto split: sum.splits if_splits)

text \<open>
  C6. Let \<open>R\<close> be a symmetric positive semi-definite 2x2 matrix and \<open>(eta, P)\<close> a state
  without landmarks: \<open>eta\<close> of length 3 and \<open>P\<close> symmetric positive semi-definite 3x3.
  For every batch of measurements \<open>update\<close> returns; the association vector is all
  \<open>-1\<close>, one entry per measurement, the NIS is 1, and no correction is applied: the
  returned state is \<open>(eta, P)\<close>, or what \<open>add_landmarks\<close> makes of \<open>(eta, P)\<close> and all
  the measurements when association is enabled and there is a measurement.
\<close>

theorem update_empty_map:
  assumes "is_mat 2 2 (R cfg)" "matT (R cfg) = R cfg" "psd (R cfg)"
    and "length eta = 3"
    and "is_mat 3 3 P" "matT P = P" "psd P"
  shows "\<exists>eta' P'. update cfg JCBB cho_inv eta P z = Inr (eta', P', 1, replicate (length z) (- 1))
     \<and> (if do_asso cfg \<and> z \<noteq> [] then add_landmarks cfg eta P (ravel z) = Inr (eta', P')
         else eta' = eta \<and> P' = P)"
proof -
  obtain eta' P' where r: "update cfg JCBB cho_inv eta P z = Inr (eta', P', 1, replicate (length z) (- 1))"
    using update_empty_map_returns[OF assms] by blast
  show ?thesis using update_empty_map_if_returns[OF assms(4) r] r by blast
qed

text \<open>An instance: the pose (0, 0, 0) with unit covariance and the one measurement (2, 0).\<close>

theorem update_empty_map_witness:
  "is_mat 2 2 (R ex_cfg) \<and> matT (R ex_cfg) = R ex_cfg \<and> psd (R ex_cfg)
   \<and> length [0, 0, 0::real] = 3 \<and> is_mat 3 3 ex_I3 \<and> matT ex_I3 = ex_I3 \<and> psd ex_I3
   \<and> (\<exists>eta' P'. update ex_cfg (\<lambda>z zpred S a0 a1. []) (\<lambda>S. Inl LinAlgError) [0, 0, 0] ex_I3 [(2, 0)]
           = Inr (eta', P', 1, [- 1])
         \<and> add_landmarks ex_cfg [0, 0, 0] ex_I3 (ravel [(2, 0)]) = Inr (eta', P'))"
proof -
  have l: "length [0, 0, 0::real] = 3" by simp
  have m: "is_mat 3 3 ex_I3" by (simp add: ex_I3_def is_mat_def)
  have d: "do_asso ex_cfg \<and> [(2, 0::real)] \<noteq> ([] :: (real \<times> real) list)" by (simp add: ex_cfg_def)
  note th = update_empty_map[OF ex_R_valid l m matT_ex_I3 psd_ex_I3,
      of "\<lambda>z zpred S a0 a1. []" "\<lambda>S. Inl LinAlgError" "[(2, 0)]"]
  have "\<exists>eta' P'. update ex_cfg (\<lambda>z zpred S a0 a1. []) (\<lambda>S. Inl LinAlgError) [0, 0, 0] ex_I3 [(2, 0)]
           = Inr (eta', P', 1, [- 1])
         \<and> add_landmarks ex_cfg [0, 0, 0] ex_I3 (ravel [(2, 0)]) = Inr (eta', P')"
    using th d by simp
  then show ?thesis using ex_R_valid l m matT_ex_I3 psd_ex_I3 by blast
qed

text \<open>
  C9, as the source behaves. With \<open>do_asso\<close> false \<open>associate\<close> returns \<open>None\<close>
  whatever its arguments, and for every state with at least one landmark \<open>update\<close>
  passes the computation of the innovation covariance and its shape assertion, and fails
  with TypeError: the assignment \<open>za, zpred, Ha, Sa, a = self.associate(...)\<close> cannot
  unpack \<open>None\<close>. The attribute access \<open>za.shape\<close> on the next line is not reached.
\<close>

theorem update_without_association_fails:
  assumes "config_ok cfg" "\<not> do_asso cfg" "length eta = 3 + 2 * L" "0 < L"
    "is_mat (length eta) (length eta) P"
  shows "associate cfg JCBB z' zpred H S = Inr None
       \<and> update cfg JCBB cho_inv eta P z = Inl TypeError"
proof -
  have "(int (length eta) - 3) div 2 = int L" "(int (length eta) - 3) mod 2 = 0"
    using assms(3) by simp_all
  then show ?thesis
    using update_known_no_asso[OF assms, of JCBB cho_inv "ravel z"] assms(2,4)
    by (simp add: update_def Let_def associate_def)
qed

text \<open>An instance: one landmark at (1, 0), zero covariance, one measurement.\<close>

theorem update_without_association_fails_witness:
  "config_ok (ex_cfg\<lparr>do_asso := False\<rparr>) \<and> \<not> do_asso (ex_cfg\<lparr>do_asso := False\<rparr>)
   \<and> length [0, 0, 0, 1, 0::real] = 3 + 2 * 1
   \<and> is_mat 5 5 (zeros 5 5 :: mat)
   \<and> update (ex_cfg\<lparr>do_asso := False\<rparr>) (\<lambda>z zpred S a0 a1. []) (\<lambda>S. Inl LinAlgError)
        [0, 0, 0, 1, 0] (zeros 5 5) [(1, 0)] = Inl TypeError"
proof -
  have c: "config_ok (ex_cfg\<lparr>do_asso := False\<rparr>)"
    by (simp add: config_ok_def ex_cfg_def is_mat_def)
  have d: "\<not> do_asso (ex_cfg\<lparr>do_asso := False\<rparr>)" by simp
  have l: "length [0, 0, 0, 1, 0::real] = 3 + 2 * 1" by simp
  have p: "(0::nat) < 1" by simp
  have "length [0, 0, 0, 1, 0::real] = 5" by simp
  then have m: "is_mat (length [0, 0, 0, 1, 0::real]) (length [0, 0, 0, 1, 0::real]) (zeros 5 5 :: mat)"
    using is_mat_zeros[of 5 5] by metis
  have m5: "is_mat 5 5 (zeros 5 5 :: mat)" by (rule is_mat_zeros)
  show ?thesis
    using update_without_association_fails[OF c d l p m] c d l m5 by blast
qed

text \<open>
  C9 as stated (\<open>update\<close> fails on accessing an attribute of the missing result, which
  on \<open>None\<close> raises AttributeError) does not hold: for one landmark at (1, 0) and one
  measurement the error is the TypeError of the unpacking, not an AttributeError.
\<close>

theorem update_without_association_counterexample:
  "(\<forall>z zpred H S.
      associate (ex_cfg\<lparr>do_asso := False\<rparr>) (\<lambda>z zpred S a0 a1. []) z zpred H S = Inr None)
   \<and> update (ex_cfg\<lparr>do_asso := False\<rparr>) (\<lambda>z zpred S a0 a1. []) (\<lambda>S. Inl LinAlgError)
        [0, 0, 0, 1, 0] (zeros 5 5) [(1, 0)] = Inl TypeError
   \<and> update (ex_cfg\<lparr>do_asso := False\<rparr>) (\<lambda>z zpred S a0 a1. []) (\<lambda>S. Inl LinAlgError)
        [0, 0, 0, 1, 0] (zeros 5 5) [(1, 0)] \<noteq> Inl AttributeError"
proof -
  have c: "config_ok (ex_cfg\<lparr>do_asso := False\<rparr>)"
    by (simp add: config_ok_def ex_cfg_def is_mat_def)
  have d: "\<not> do_asso (ex_cfg\<lparr>do_asso := False\<rparr>)" by simp
  have l: "length [0, 0, 0, 1, 0::real] = 3 + 2 * 1" by simp
  have p: "(0::nat) < 1" by simp
  have "length [0, 0, 0, 1, 0::real] = 5" by simp
  then have m: "is_mat (length [0, 0, 0, 1, 0::real]) (length [0, 0, 0, 1, 0::real]) (zeros 5 5 :: mat)"
    using is_mat_zeros[of 5 5] by metis
  have "(int (length [0, 0, 0, 1, 0::real]) - 3) div 2 = 1" by simp
  then have u: "update (ex_cfg\<lparr>do_asso := False\<rparr>) (\<lambda>z zpred S a0 a1. []) (\<lambda>S. Inl LinAlgError)
        [0, 0, 0, 1, 0] (zeros 5 5) [(1, 0)] = Inl TypeError"
    using update_known_no_asso[OF c d l p m, of "\<lambda>z zpred S a0 a1. []" "\<lambda>S. Inl LinAlgError" "ravel [(1, 0)]"]
    by (simp add: update_def Let_def)
  show ?thesis unfolding u by (simp add: associate_def)
qed

text \<open>Whatever the shapes of the state, no value is returned in that case.\<close>

lemma update_without_association_error:
  assumes "\<not> do_asso cfg" "0 < (int (length eta) - 3) div 2"
  shows "\<exists>e. update cfg JCBB cho_inv eta P z = Inl e"
proof -
  have "\<exists>e. update_known cfg JCBB cho_inv n eta P z' = Inl e" for n z'
    using assms(1) by (auto simp: update_known_def associate_def Let_def split: sum.splits)
  then obtain e where "update_known cfg JCBB cho_inv (nat ((int (length eta) - 3) div 2)) eta P (ravel z) = Inl e"
    by blast
  then show ?thesis using assms(2) by (auto simp: update_def Let_def)
qed

section \<open>Properties of the consistency metrics\<close>

text \<open>
  C8. The claim: when the heading variance \<open>P[2,2]\<close> is 0, the heading component of the
  result is the fallback 1.0. For the error (0, 1, 1) and the covariance
  \<open>[[1, 0, 0], [0, 1, 1], [0, 1, 0]]\<close>, whose entry \<open>P[2,2]\<close> is 0, \<open>NEESes\<close> returns
  the heading component \<open>inf\<close>: the division yields an infinity, not an exception, and
  only NaN entries are replaced.
\<close>

theorem NEESes_heading_infinite:
  "NEESes [0, 1, 1] [[1, 0, 0], [0, 1, 1], [0, 1, 0]] [0, 0, 0] = Inr [Fin 1, Fin 1, PInf]"
  using pi_ge_two
  by (simp add: NEESes_def is_mat_def vec_sub_def wrapToPi_1 solve3_def solve2_def det3_def
      det2_def replace_col_def slice2_def np_div_def np_ge0_def upt_rec numeral_2_eq_2 numeral_3_eq_3 Let_def)

text \<open>
  For a positive semi-definite covariance with \<open>P[2,2] = 0\<close> the matrix is singular and
  \<open>np.linalg.solve\<close> raises before the heading term is reached.
\<close>

lemma NEESes_singular_raises:
  "NEESes [0, 0, 1] [[1, 0, 0], [0, 1, 0], [0, 0, 0]] [0, 0, 0] = Inl LinAlgError"
  using pi_ge_two
  by (simp add: NEESes_def is_mat_def vec_sub_def wrapToPi_1 solve3_def solve2_def det3_def
      det2_def replace_col_def slice2_def np_div_def np_ge0_def  Let_def)

text \<open>
  In general, when \<open>NEESes\<close> returns for a covariance with \<open>P[2,2] = 0\<close>, the heading
  component is \<open>inf\<close> unless the wrapped heading error is 0 (then the quotient is NaN
  and is replaced by 1).
\<close>

lemma NEESes_zero_heading_variance:
  assumes "NEESes x P x_gt = Inr r" "P ! 2 ! 2 = 0"
  shows "r ! 2 = (if wrapToPi (x ! 2 - x_gt ! 2) = 0 then Fin 1 else PInf)"
proof -
  have l: "length x = 3" "length x_gt = 3"
    using assms(1) by (auto simp: NEESes_def split: if_splits)
  have d: "vec_sub x x_gt ! 2 = x ! 2 - x_gt ! 2" "length (vec_sub x x_gt) = 3"
    using l by (simp_all add: vec_sub_def)
  show ?thesis
    using assms
    by (auto simp: NEESes_def Let_def d np_div_def np_ge0_def split: if_splits sum.splits)
qed

section \<open>Properties of the covariance prediction\<close>

text \<open>
  C3, as the source behaves. Let \<open>Q\<close> be a symmetric positive semi-definite 3x3
  matrix, \<open>P\<close> a symmetric positive semi-definite matrix of the dimension of \<open>eta\<close>,
  and let the state and the odometry have at least three entries. Then the motion model
  and its Jacobians are defined, and for the covariance \<open>P'\<close> that \<open>predict\<close> computes
  from them:

    \<^item> \<open>predict\<close> returns the predicted state with \<open>P'\<close> when its two tests on the
      eigenvalues accept \<open>P\<close> and \<open>P'\<close>, whatever the verdicts of these tests are, and
      fails with an assertion error otherwise;
    \<^item> \<open>P'\<close> is symmetric, positive semi-definite and of the dimension of the
      predicted state;
    \<^item> \<open>P'\<close> is strictly positive definite, with all its eigenvalues strictly
      positive, when \<open>P\<close> is positive definite, and also when \<open>Q\<close> and the map block
      \<open>P[3:, 3:]\<close> are (for a state without landmarks the map block is empty and the
      condition on it holds);
    \<^item> \<open>P'\<close> is strictly positive definite only if the map block of \<open>P\<close> is: the
      process noise reaches the pose block and nothing else.
\<close>

theorem predict_covariance:
  assumes "is_mat 3 3 (Q cfg)" "matT (Q cfg) = Q cfg" "psd (Q cfg)"
    and "is_mat (length eta) (length eta) P" "matT P = P" "psd P"
    and "3 \<le> length eta" "3 \<le> length z_odo"
  shows "\<exists>xpred Fx' Fu'.
           f (take 3 eta) z_odo = Inr xpred \<and> Fx (take 3 eta) z_odo = Inr Fx'
         \<and> Fu (take 3 eta) z_odo = Inr Fu'
         \<and> (let P' = predict_P cfg P Fx' Fu' in
              predict ev cfg eta P z_odo =
                (if all_ge0 ev P \<and> all_gt0 ev P' then Inr (xpred @ drop 3 eta, P')
                 else Inl AssertionError)
            \<and> matT P' = P' \<and> psd P'
            \<and> is_mat (length (xpred @ drop 3 eta)) (length (xpred @ drop 3 eta)) P'
            \<and> (pd P \<or> pd (Q cfg) \<and> pd (map (drop 3) (drop 3 P)) \<longrightarrow> pd P' \<and> eigvals_gt0 P')
            \<and> (pd P' \<longrightarrow> pd (map (drop 3) (drop 3 P))))"
proof -
  have lt: "length (take 3 eta) = 3" using assms(7) by simp
  obtain xpred where xp: "f (take 3 eta) z_odo = Inr xpred"
    using lt assms(8) by (simp add: f_def Let_def)
  obtain Fx' where F: "Fx (take 3 eta) z_odo = Inr Fx'"
    using lt assms(8) by (simp add: Fx_def Let_def)
  obtain Fu' where U: "Fu (take 3 eta) z_odo = Inr Fu'"
    using lt assms(8) by (simp add: Fu_def Let_def)
  note Fm = is_mat_Fx[OF F] and Um = is_mat_Fu[OF U]
  define P' where "P' = predict_P cfg P Fx' Fu'"
  note e = predict_eq(1)[OF assms(1,2,4,5,7) xp F U, where ev = ev, folded P'_def]
    predict_eq(2,3)[OF assms(1,2,4,5,7) xp F U, folded P'_def]
  have ps: "psd P'"
    unfolding P'_def by (rule predict_P_psd[OF assms(4,7,5,6,1,3) Fm Um])
  have suff: "pd P'" if "pd P \<or> pd (Q cfg) \<and> pd (map (drop 3) (drop 3 P))"
    using that
  proof
    assume "pd P"
    then show ?thesis
      unfolding P'_def by (intro predict_P_pd_of_pd[OF assms(4,7,5) _ assms(1,3) F Um])
  next
    assume a: "pd (Q cfg) \<and> pd (map (drop 3) (drop 3 P))"
    show ?thesis
      unfolding P'_def using a
      by (intro predict_P_pd_of_map[OF assms(4,7,5,6) _ assms(1) _ Fm U]) simp_all
  qed
  have nec: "pd (map (drop 3) (drop 3 P))" if "pd P'"
    using that unfolding P'_def by (rule predict_P_pd_map[OF assms(4,7,5,1) Fm Um])
  have "predict ev cfg eta P z_odo =
          (if all_ge0 ev P \<and> all_gt0 ev P' then Inr (xpred @ drop 3 eta, P')
           else Inl AssertionError)
      \<and> matT P' = P' \<and> psd P'
      \<and> is_mat (length (xpred @ drop 3 eta)) (length (xpred @ drop 3 eta)) P'
      \<and> (pd P \<or> pd (Q cfg) \<and> pd (map (drop 3) (drop 3 P)) \<longrightarrow> pd P' \<and> eigvals_gt0 P')
      \<and> (pd P' \<longrightarrow> pd (map (drop 3) (drop 3 P)))"
    using e ps suff nec pd_imp_eigvals_gt0[of P'] by blast
  then show ?thesis using xp F U unfolding P'_def Let_def by blast
qed

text \<open>
  An instance: one landmark, the pose known exactly (a zero pose block, so \<open>P\<close> is
  singular) and unit covariance of the landmark, unit process noise, zero odometry. The
  covariance returned is the identity.
\<close>

theorem predict_covariance_witness:
  "is_mat 3 3 (Q ex_cfg) \<and> matT (Q ex_cfg) = Q ex_cfg \<and> psd (Q ex_cfg) \<and> pd (Q ex_cfg)
   \<and> is_mat (length [0, 0, 0, 1, 1::real]) (length [0, 0, 0, 1, 1::real]) ex_Pm
   \<and> matT ex_Pm = ex_Pm \<and> psd ex_Pm \<and> pd (map (drop 3) (drop 3 ex_Pm))
   \<and> 3 \<le> length [0, 0, 0, 1, 1::real] \<and> 3 \<le> length [0, 0, 0::real]
   \<and> predict exact_eigvals ex_cfg [0, 0, 0, 1, 1] ex_Pm [0, 0, 0] = Inr ([0, 0, 0, 1, 1], ex_I5)
   \<and> matT ex_I5 = ex_I5 \<and> pd ex_I5 \<and> eigvals_gt0 ex_I5"
proof -
  have q: "is_mat 3 3 (Q ex_cfg)" "matT (Q ex_cfg) = Q ex_cfg" "psd (Q ex_cfg)" "pd (Q ex_cfg)"
    by (simp_all add: ex_Q matT_ex_I3 psd_ex_I3 pd_ex_I3) (simp add: ex_I3_def is_mat_def)
  have p: "is_mat (length [0, 0, 0, 1, 1::real]) (length [0, 0, 0, 1, 1::real]) ex_Pm"
    by (simp add: ex_Pm_def is_mat_def)
  have l: "3 \<le> length [0, 0, 0, 1, 1::real]" "3 \<le> length [0, 0, 0::real]" by simp_all
  have t: "take 3 [0, 0, 0, 1, 1::real] = [0, 0, 0]" "drop 3 [0, 0, 0, 1, 1::real] = [1, 1]"
    by simp_all
  have g: "all_ge0 exact_eigvals ex_Pm"
    using psd_imp_eigvals_ge0[OF psd_ex_Pm] by (simp add: exact_eigvals_def)
  obtain xpred Fx' Fu' where m: "f [0, 0, 0] [0, 0, 0] = Inr xpred"
      "Fx [0, 0, 0] [0, 0, 0] = Inr Fx'" "Fu [0, 0, 0] [0, 0, 0] = Inr Fu'"
    and r: "predict exact_eigvals ex_cfg [0, 0, 0, 1, 1] ex_Pm [0, 0, 0] =
              (if all_ge0 exact_eigvals ex_Pm \<and> all_gt0 exact_eigvals (predict_P ex_cfg ex_Pm Fx' Fu')
               then Inr (xpred @ [1, 1], predict_P ex_cfg ex_Pm Fx' Fu') else Inl AssertionError)"
      "pd ex_Pm \<or> pd (Q ex_cfg) \<and> pd (map (drop 3) (drop 3 ex_Pm)) \<longrightarrow>
         pd (predict_P ex_cfg ex_Pm Fx' Fu') \<and> eigvals_gt0 (predict_P ex_cfg ex_Pm Fx' Fu')"
    using predict_covariance[OF q(1,2,3) p matT_ex_Pm psd_ex_Pm l, of exact_eigvals]
    unfolding t Let_def by blast
  have x: "xpred = [0, 0, 0]" "Fx' = ex_I3" "Fu' = ex_I3" using m[unfolded ex_motion] by simp_all
  have d: "pd ex_I5 \<and> eigvals_gt0 ex_I5"
    using r(2) q(4) pd_map_ex_Pm unfolding x predict_P_ex_Pm by blast
  then have "all_gt0 exact_eigvals ex_I5" by (simp add: exact_eigvals_def)
  then have "predict exact_eigvals ex_cfg [0, 0, 0, 1, 1] ex_Pm [0, 0, 0] = Inr ([0, 0, 0, 1, 1], ex_I5)"
    using r(1) g unfolding x predict_P_ex_Pm by simp
  then show ?thesis using q p matT_ex_Pm psd_ex_Pm pd_map_ex_Pm l matT_ex_I5 d by blast
qed

text \<open>
  C3 as stated (for every symmetric positive semi-definite \<open>P\<close> a strictly positive
  definite covariance is returned) fails for a state with one landmark and zero
  covariance: the process noise reaches the pose block only, and the covariance computed
  is diag(1, 1, 1, 0, 0), which has the eigenvalue 0 and is not positive definite.
  Whatever the tests on the eigenvalues answer, \<open>predict\<close> either fails its assertion or
  returns that matrix; with the tests decided on the exact spectrum it fails the last
  assertion.
\<close>

theorem predict_singular_map_counterexample:
  "is_mat 5 5 ex_P0 \<and> matT ex_P0 = ex_P0 \<and> psd ex_P0 \<and> pd (Q ex_cfg)
   \<and> predict_P ex_cfg ex_P0 ex_I3 ex_I3 = ex_P0_pred
   \<and> \<not> pd ex_P0_pred \<and> \<not> eigvals_gt0 ex_P0_pred
   \<and> (\<forall>ev. predict ev ex_cfg [0, 0, 0, 1, 1] ex_P0 [0, 0, 0] = Inl AssertionError
          \<or> predict ev ex_cfg [0, 0, 0, 1, 1] ex_P0 [0, 0, 0] = Inr ([0, 0, 0, 1, 1], ex_P0_pred))
   \<and> predict exact_eigvals ex_cfg [0, 0, 0, 1, 1] ex_P0 [0, 0, 0] = Inl AssertionError"
proof -
  have m: "is_mat 5 5 ex_P0" by (simp add: ex_P0_def is_mat_def)
  have m': "is_mat (length [0, 0, 0, 1, 1::real]) (length [0, 0, 0, 1, 1::real]) ex_P0"
    by (simp add: ex_P0_def is_mat_def)
  have q: "is_mat 3 3 (Q ex_cfg)" "matT (Q ex_cfg) = Q ex_cfg"
    by (simp_all add: ex_Q matT_ex_I3) (simp add: ex_I3_def is_mat_def)
  have t: "take 3 [0, 0, 0, 1, 1::real] = [0, 0, 0]" by simp
  have l: "3 \<le> length [0, 0, 0, 1, 1::real]" by simp
  have e: "predict ev ex_cfg [0, 0, 0, 1, 1] ex_P0 [0, 0, 0] =
             (if all_ge0 ev ex_P0 \<and> all_gt0 ev ex_P0_pred
              then Inr ([0, 0, 0, 1, 1], ex_P0_pred) else Inl AssertionError)" for ev
    using predict_eq(1)[OF q m' matT_ex_P0 l, unfolded t, OF ex_motion, where ev = ev]
    by (simp add: predict_P_ex_P0)
  have a: "\<forall>ev. predict ev ex_cfg [0, 0, 0, 1, 1] ex_P0 [0, 0, 0] = Inl AssertionError
          \<or> predict ev ex_cfg [0, 0, 0, 1, 1] ex_P0 [0, 0, 0] = Inr ([0, 0, 0, 1, 1], ex_P0_pred)"
    unfolding e by simp
  have x: "predict exact_eigvals ex_cfg [0, 0, 0, 1, 1] ex_P0 [0, 0, 0] = Inl AssertionError"
    unfolding e using not_eigvals_gt0_ex_P0_pred by (simp add: exact_eigvals_def)
  show ?thesis
    using m matT_ex_P0 psd_ex_P0 pd_ex_I3 predict_P_ex_P0 not_pd_ex_P0_pred
      not_eigvals_gt0_ex_P0_pred a x
    by (simp add: ex_Q)
qed
end
